theory Spec2Isabelle
  imports Main "HOL-Library.Word"
begin

unbundle bit_operations_syntax

section \<open>The arena allocator of \<^verbatim>\<open>src/arena.h\<close>\<close>

text \<open>
  The embedding follows \<^verbatim>\<open>arena.h\<close> function by function, on an LP64 platform:
  \<^verbatim>\<open>uintptr_t\<close> is a 64-bit word, a pointer is the 64-bit address it holds and
  \<^verbatim>\<open>NULL\<close> is the address 0. Memory is an explicit store: the \<^verbatim>\<open>Arena\<close> structs
  that live at an address (the caller's head and the nodes obtained from the backing
  provider), the blocks the provider has handed out and not taken back, the answers
  the provider will give to the next requests (0 when it is exhausted), and whether the
  provider is libc's \<^verbatim>\<open>malloc\<close> and \<^verbatim>\<open>free\<close> (the default of the two provider macros) or
  a replacement with a heap of its own. \<open>None\<close> as the result of a call means that the
  call gives no result: a loop that never ends, or undefined behaviour (a dereference of
  an address that holds no struct, libc's \<^verbatim>\<open>free\<close> on a block libc did not allocate).
\<close>

subsection \<open>Data\<close>

type_synonym uintptr_t = "64 word"
type_synonym ptr = "64 word"

abbreviation NULL :: ptr where
  "NULL \<equiv> 0"

text \<open>
  \<^verbatim>\<open>typedef struct Arena { uintptr_t *_region; uintptr_t _size;
  uintptr_t _alloc_size; struct Arena *_next; } Arena;\<close>
\<close>

record Arena =
  arena_region :: ptr
  arena_size :: uintptr_t
  arena_alloc_size :: uintptr_t
  arena_next :: ptr

record memory =
  arenas :: "ptr \<rightharpoonup> Arena"
  blocks :: "ptr \<rightharpoonup> uintptr_t"
  provider :: "ptr list"
  provider_is_libc :: bool

text \<open>Every \<^verbatim>\<open>return NULL\<close> of a failing \<^verbatim>\<open>Arena_alloc\<close> is tagged with its cause.\<close>

datatype alloc_error = Overflow | NoMemory

text \<open>What the C caller receives: \<^verbatim>\<open>NULL\<close> on failure, the pointer otherwise.\<close>

fun C_return :: "alloc_error + ptr \<Rightarrow> ptr" where
  "C_return (Inl e) = NULL"
| "C_return (Inr p) = p"

subsection \<open>Configuration macros\<close>

text \<open>\<^verbatim>\<open>#define COOL_ARENA_DEF_SIZE 8 * 1024\<close>, unless the including file overrides it.\<close>

definition COOL_ARENA_DEF_SIZE :: uintptr_t where
  "COOL_ARENA_DEF_SIZE = 8 * 1024"

text \<open>\<^verbatim>\<open>sizeof(Arena)\<close>: four 8-byte fields.\<close>

definition sizeof_Arena :: uintptr_t where
  "sizeof_Arena = 32"

text \<open>
  \<^verbatim>\<open>COOL_ARENA_FUNC_ALLOC\<close> (\<^verbatim>\<open>malloc\<close>): the provider's next answer, \<^verbatim>\<open>NULL\<close> when it
  has none left; a block that was handed out is recorded with the size asked for.
\<close>

definition COOL_ARENA_FUNC_ALLOC :: "memory \<Rightarrow> uintptr_t \<Rightarrow> ptr \<times> memory" where
  "COOL_ARENA_FUNC_ALLOC m n =
     (case provider m of
        [] \<Rightarrow> (NULL, m)
      | p # ps \<Rightarrow>
          (p, m\<lparr>blocks := (if p = NULL then blocks m else (blocks m)(p \<mapsto> n)),
                provider := ps\<rparr>))"

text \<open>\<^verbatim>\<open>COOL_ARENA_FUNC_FREE\<close> (\<^verbatim>\<open>free\<close>): the block is taken back; \<^verbatim>\<open>free(NULL)\<close> does nothing.\<close>

definition COOL_ARENA_FUNC_FREE :: "memory \<Rightarrow> ptr \<Rightarrow> memory" where
  "COOL_ARENA_FUNC_FREE m p = (if p = NULL then m else m\<lparr>blocks := (blocks m)(p := None)\<rparr>)"

text \<open>
  libc's \<^verbatim>\<open>free\<close>, which \<^verbatim>\<open>Arena_alloc\<close> calls by name: \<^verbatim>\<open>free(NULL)\<close> does nothing; a block
  of the provider is taken back when the provider is libc; on a block of a replaced
  provider the call is undefined.
\<close>

definition free :: "memory \<Rightarrow> ptr \<Rightarrow> memory option" where
  "free m p =
     (if p = NULL then Some m
      else if provider_is_libc m then Some (COOL_ARENA_FUNC_FREE m p)
      else None)"

subsection \<open>Reading and writing a struct through a pointer\<close>

text \<open>
  Dereferencing \<^verbatim>\<open>NULL\<close>, or an address that holds no \<^verbatim>\<open>Arena\<close>, has no result. A write
  puts the struct at the address; the callers below write through pointers they have read
  through, or through the caller's own \<^verbatim>\<open>Arena\<close> (\<^verbatim>\<open>Arena_init\<close>).
\<close>

definition load :: "memory \<Rightarrow> ptr \<Rightarrow> Arena option" where
  "load m p = (if p = NULL then None else arenas m p)"

definition store :: "memory \<Rightarrow> ptr \<Rightarrow> Arena \<Rightarrow> memory" where
  "store m p r = m\<lparr>arenas := (arenas m)(p \<mapsto> r)\<rparr>"

subsection \<open>\<^verbatim>\<open>Arena_init\<close>\<close>

definition Arena_init :: "memory \<Rightarrow> ptr \<Rightarrow> memory" where
  "Arena_init m arena =
     store m arena \<lparr>arena_region = NULL, arena_size = 0, arena_alloc_size = 0, arena_next = NULL\<rparr>"

subsection \<open>\<^verbatim>\<open>Arena_alloc\<close>\<close>

text \<open>
  The search loop:
  \<^verbatim>\<open>for (;;) { if (arena->_next == NULL || size <= arena->_alloc_size - arena->_size) break;
  arena = arena->_next; }\<close>.
  It yields the region the loop stops at; \<open>None\<close> when the walk never stops or leaves
  the allocated structs.
\<close>

partial_function (option) find_region :: "memory \<Rightarrow> ptr \<Rightarrow> uintptr_t \<Rightarrow> ptr option" where
  "find_region m arena size1 =
     (case load m arena of
        None \<Rightarrow> None
      | Some r \<Rightarrow>
          if arena_next r = NULL \<or> size1 \<le> arena_alloc_size r - arena_size r
          then Some arena
          else find_region m (arena_next r) size1)"

text \<open>
  The doubling loop:
  \<^verbatim>\<open>while (new_capacity < size) { if (new_capacity > new_capacity << 1) return NULL;
  new_capacity <<= 1; }\<close>.
  \<open>None\<close> when the loop never ends.
\<close>

partial_function (option) new_capacity_loop ::
  "uintptr_t \<Rightarrow> uintptr_t \<Rightarrow> (alloc_error + uintptr_t) option" where
  "new_capacity_loop new_capacity size1 =
     (if new_capacity < size1
      then (if new_capacity > push_bit 1 new_capacity
            then Some (Inl Overflow)
            else new_capacity_loop (push_bit 1 new_capacity) size1)
      else Some (Inr new_capacity))"

text \<open>
  \<^verbatim>\<open>Arena_alloc\<close>; the first argument is the value of \<^verbatim>\<open>COOL_ARENA_DEF_SIZE\<close> the
  file was compiled with. A pointer into a region is the region's address plus 8 bytes
  for each \<^verbatim>\<open>uintptr_t\<close> before it.
\<close>

definition Arena_alloc ::
  "uintptr_t \<Rightarrow> memory \<Rightarrow> ptr \<Rightarrow> uintptr_t \<Rightarrow> ((alloc_error + ptr) \<times> memory) option" where
  "Arena_alloc def_size m arena0 size0 =
     (if size0 = 0 then Some (Inr NULL, m)
      else
        let size1 = drop_bit 2 size0 + 1 in
        case find_region m arena0 size1 of
          None \<Rightarrow> None
        | Some arena \<Rightarrow>
        (case load m arena of
          None \<Rightarrow> None
        | Some r \<Rightarrow>
          if size1 \<le> arena_alloc_size r - arena_size r
          then Some (Inr (arena_region r + 8 * arena_size r),
                     store m arena (r\<lparr>arena_size := arena_size r + size1\<rparr>))
          else
            (case new_capacity_loop def_size size1 of
              None \<Rightarrow> None
            | Some (Inl e) \<Rightarrow> Some (Inl e, m)
            | Some (Inr new_capacity) \<Rightarrow>
              (case COOL_ARENA_FUNC_ALLOC m new_capacity of (new_region, m1) \<Rightarrow>
               if new_region = NULL then Some (Inl NoMemory, m1)
               else if arena_region r \<noteq> NULL
               then
                 (case COOL_ARENA_FUNC_ALLOC m1 sizeof_Arena of (new_arena, m2) \<Rightarrow>
                  if new_arena = NULL
                  then
                    (case free m2 new_region of
                      None \<Rightarrow> None
                    | Some m3 \<Rightarrow> Some (Inl NoMemory, m3))
                  else
                    let m3 = Arena_init m2 new_arena in
                    (case load m3 arena of
                      None \<Rightarrow> None
                    | Some r3 \<Rightarrow>
                      let m4 = store m3 arena (r3\<lparr>arena_next := new_arena\<rparr>) in
                      (case load m4 new_arena of
                        None \<Rightarrow> None
                      | Some r4 \<Rightarrow>
                        Some (Inr new_region,
                              store m4 new_arena
                                (r4\<lparr>arena_region := new_region,
                                    arena_alloc_size := new_capacity,
                                    arena_size := arena_size r4 + size1\<rparr>)))))
               else
                 Some (Inr new_region,
                       store m1 arena
                         (r\<lparr>arena_region := new_region,
                            arena_alloc_size := new_capacity,
                            arena_size := arena_size r + size1\<rparr>))))))"

subsection \<open>\<^verbatim>\<open>Arena_reset\<close>\<close>

text \<open>\<^verbatim>\<open>while (arena != NULL) { arena->_size = 0; arena = arena->_next; }\<close>\<close>

partial_function (option) Arena_reset :: "memory \<Rightarrow> ptr \<Rightarrow> memory option" where
  "Arena_reset m arena =
     (if arena = NULL then Some m
      else
        (case load m arena of
          None \<Rightarrow> None
        | Some r \<Rightarrow> Arena_reset (store m arena (r\<lparr>arena_size := 0\<rparr>)) (arena_next r)))"

subsection \<open>\<^verbatim>\<open>Arena_free\<close>\<close>

text \<open>
  \<^verbatim>\<open>while (arena != NULL) { COOL_ARENA_FUNC_FREE(arena->_region); arena->_region = NULL;
  prev = arena; arena = arena->_next; prev->_next = NULL; }\<close>
\<close>

partial_function (option) Arena_free :: "memory \<Rightarrow> ptr \<Rightarrow> memory option" where
  "Arena_free m arena =
     (if arena = NULL then Some m
      else
        (case load m arena of
          None \<Rightarrow> None
        | Some r \<Rightarrow>
            Arena_free
              (store (COOL_ARENA_FUNC_FREE m (arena_region r)) arena
                 (r\<lparr>arena_region := NULL, arena_next := NULL\<rparr>))
              (arena_next r)))"

subsection \<open>Call sequences\<close>

text \<open>
  A client in the style of \<^verbatim>\<open>examples/arena.c\<close>: one \<^verbatim>\<open>Arena\<close> at the address \<open>h\<close>,
  and a sequence of calls on it. The run collects what each \<^verbatim>\<open>Arena_alloc\<close> returned
  to the caller.
\<close>

datatype call = Initialize | Allocate uintptr_t | Reset | Release

fun run ::
  "uintptr_t \<Rightarrow> ptr \<Rightarrow> call list \<Rightarrow> ptr list \<times> memory \<Rightarrow> (ptr list \<times> memory) option" where
  "run d h [] st = Some st"
| "run d h (Initialize # cs) (ps, m) = run d h cs (ps, Arena_init m h)"
| "run d h (Allocate n # cs) (ps, m) =
     (case Arena_alloc d m h n of
        None \<Rightarrow> None
      | Some (res, m') \<Rightarrow> run d h cs (ps @ [C_return res], m'))"
| "run d h (Reset # cs) (ps, m) =
     (case Arena_reset m h of None \<Rightarrow> None | Some m' \<Rightarrow> run d h cs (ps, m'))"
| "run d h (Release # cs) (ps, m) =
     (case Arena_free m h of None \<Rightarrow> None | Some m' \<Rightarrow> run d h cs (ps, m'))"

text \<open>
  A memory that holds no struct and no block, with the answers to come of the default
  provider (libc).
\<close>

definition fresh_memory :: "ptr list \<Rightarrow> memory" where
  "fresh_memory ps =
     \<lparr>arenas = Map.empty, blocks = Map.empty, provider = ps, provider_is_libc = True\<rparr>"

text \<open>The pointers a call sequence returned, and the struct at an address after it.\<close>

definition returned :: "uintptr_t \<Rightarrow> ptr \<Rightarrow> call list \<Rightarrow> memory \<Rightarrow> ptr list option" where
  "returned d h cs m =
     (case run d h cs ([], m) of None \<Rightarrow> None | Some (ps, m') \<Rightarrow> Some ps)"

definition struct_after ::
  "uintptr_t \<Rightarrow> ptr \<Rightarrow> call list \<Rightarrow> memory \<Rightarrow> ptr \<Rightarrow> Arena option" where
  "struct_after d h cs m p =
     (case run d h cs ([], m) of None \<Rightarrow> None | Some (ps, m') \<Rightarrow> load m' p)"

subsection \<open>Chains and free space\<close>

text \<open>
  \<open>chain m p ps\<close>: following \<^verbatim>\<open>_next\<close> from \<open>p\<close> visits exactly the structs at the
  addresses \<open>ps\<close>, in this order, and then reaches \<^verbatim>\<open>NULL\<close>.
\<close>

fun chain :: "memory \<Rightarrow> ptr \<Rightarrow> ptr list \<Rightarrow> bool" where
  "chain m p [] = (p = NULL)"
| "chain m p (q # qs) =
     (p = q \<and> (case load m p of None \<Rightarrow> False | Some r \<Rightarrow> chain m (arena_next r) qs))"

text \<open>The test of both the search loop and the fast path, on the struct at \<open>p\<close>.\<close>

definition qualifies :: "memory \<Rightarrow> uintptr_t \<Rightarrow> ptr \<Rightarrow> bool" where
  "qualifies m s p =
     (case load m p of
        None \<Rightarrow> False
      | Some r \<Rightarrow> s \<le> arena_alloc_size r - arena_size r)"

subsection \<open>What one allocation may touch\<close>

text \<open>
  \<open>alloc_frame m m' t s q\<close> compares the structs before (\<open>m\<close>) and after (\<open>m'\<close>) a
  call whose search stopped at \<open>t\<close>: the struct at \<open>q\<close> has its \<^verbatim>\<open>_size\<close> advanced by
  \<open>s\<close> (from 0 when the struct is new); every other struct keeps its \<^verbatim>\<open>_region\<close>,
  \<^verbatim>\<open>_size\<close> and \<^verbatim>\<open>_alloc_size\<close>; no other struct appears; and a \<^verbatim>\<open>_next\<close> link
  changes only at \<open>t\<close>, from \<^verbatim>\<open>NULL\<close> to the new struct \<open>q\<close>.
\<close>

definition alloc_frame :: "memory \<Rightarrow> memory \<Rightarrow> ptr \<Rightarrow> uintptr_t \<Rightarrow> ptr \<Rightarrow> bool" where
  "alloc_frame m m' t s q \<longleftrightarrow>
     (\<exists>r'. arenas m' q = Some r' \<and>
        arena_size r' = (case arenas m q of None \<Rightarrow> 0 | Some r \<Rightarrow> arena_size r) + s) \<and>
     (\<forall>x r. x \<noteq> q \<and> arenas m x = Some r \<longrightarrow>
        (\<exists>r'. arenas m' x = Some r' \<and> arena_region r' = arena_region r \<and>
              arena_size r' = arena_size r \<and> arena_alloc_size r' = arena_alloc_size r)) \<and>
     (\<forall>x. x \<noteq> q \<and> arenas m x = None \<longrightarrow> arenas m' x = None) \<and>
     (\<forall>x r. arenas m x = Some r \<longrightarrow>
        (\<exists>r'. arenas m' x = Some r' \<and>
           (arena_next r' = arena_next r \<or>
            arena_next r = NULL \<and> arena_next r' = q \<and> arenas m q = None \<and> x = t)))"

subsection \<open>The memories of \<^verbatim>\<open>examples/arena.c\<close>\<close>

text \<open>
  \<^verbatim>\<open>examples/arena.c\<close> sets \<^verbatim>\<open>COOL_ARENA_DEF_SIZE\<close> to 16 and allocates 14 bytes, then
  128 bytes. With the \<^verbatim>\<open>Arena\<close> at address 512 and a provider that answers 4096, 8192
  and 12288, \<open>one_region\<close> is the memory after the first allocation and \<open>two_regions\<close>
  the memory after the second.
\<close>

definition one_region :: memory where
  "one_region =
     \<lparr>arenas = [512 \<mapsto> \<lparr>arena_region = 4096, arena_size = 4, arena_alloc_size = 16,
                        arena_next = NULL\<rparr>],
      blocks = [4096 \<mapsto> 16], provider = [8192, 12288], provider_is_libc = True\<rparr>"

definition two_regions :: memory where
  "two_regions =
     \<lparr>arenas = [512 \<mapsto> \<lparr>arena_region = 4096, arena_size = 4, arena_alloc_size = 16,
                        arena_next = 12288\<rparr>,
                12288 \<mapsto> \<lparr>arena_region = 8192, arena_size = 33, arena_alloc_size = 64,
                          arena_next = NULL\<rparr>],
      blocks = [4096 \<mapsto> 16, 8192 \<mapsto> 64, 12288 \<mapsto> 32], provider = [],
      provider_is_libc = True\<rparr>"

subsection \<open>The invariants of the data model\<close>

text \<open>
  The spec's invariants of a region: used is at most the capacity, and the buffer is
  present iff the capacity is greater than zero. \<open>arena_ok\<close> asks this of every struct in
  memory.
\<close>

definition region_ok :: "Arena \<Rightarrow> bool" where
  "region_ok r \<longleftrightarrow>
     arena_size r \<le> arena_alloc_size r \<and> (arena_region r \<noteq> NULL) = (0 < arena_alloc_size r)"

definition arena_ok :: "memory \<Rightarrow> bool" where
  "arena_ok m \<longleftrightarrow> (\<forall>p r. arenas m p = Some r \<longrightarrow> region_ok r)"

declare find_region.simps [code]
  and new_capacity_loop.simps [code]
  and Arena_reset.simps [code]
  and Arena_free.simps [code]

section \<open>Reading, writing and chains\<close>

lemma load_store: "load (store m a r) p = (if p = NULL then None else if p = a then Some r else load m p)"
  by (simp add: load_def store_def)

lemma load_Some_not_NULL: "load m p = Some r \<Longrightarrow> p \<noteq> NULL"
  by (auto simp: load_def split: if_splits)

lemma load_NULL: "load m NULL = None"
  by (simp add: load_def)

lemma load_other_fields:
  "load (m\<lparr>blocks := bs\<rparr>) p = load m p"
  "load (m\<lparr>provider := ps\<rparr>) p = load m p"
  by (simp_all add: load_def)

lemma chain_Cons:
  "chain m p (q # qs) = (p = q \<and> (\<exists>r. load m q = Some r \<and> chain m (arena_next r) qs))"
  by (auto split: option.splits)

lemma chain_not_NULL: "chain m p ps \<Longrightarrow> NULL \<notin> set ps"
  by (induction ps arbitrary: p) (auto simp: chain_Cons load_NULL simp del: chain.simps(2))

lemma chain_unique: "chain m p ps \<Longrightarrow> chain m p qs \<Longrightarrow> ps = qs"
proof (induction ps arbitrary: p qs)
  case Nil
  then show ?case by (cases qs) (auto simp: chain_Cons load_NULL simp del: chain.simps(2))
next
  case (Cons a ps)
  then show ?case by (cases qs) (auto simp: chain_Cons load_NULL simp del: chain.simps(2))
qed

lemma chain_suffix: "chain m p (xs @ q # ys) \<Longrightarrow> chain m q (q # ys)"
  by (induction xs arbitrary: p) (auto simp: chain_Cons simp del: chain.simps(2))

lemma chain_head_notin_tail:
  assumes "chain m p (p # ps)"
  shows "p \<notin> set ps"
proof
  assume "p \<in> set ps"
  then obtain xs ys where ps: "ps = xs @ p # ys" by (auto simp: in_set_conv_decomp)
  with assms have "chain m p ((p # xs) @ p # ys)" by simp
  then have "chain m p (p # ys)" by (rule chain_suffix)
  with assms have "p # ps = p # ys" by (rule chain_unique)
  with ps show False by simp
qed

lemma chain_distinct: "chain m p ps \<Longrightarrow> distinct ps"
proof (induction ps arbitrary: p)
  case Nil
  then show ?case by simp
next
  case (Cons a ps)
  from Cons.prems have pa: "p = a" by simp
  with Cons.prems have "a \<notin> set ps" using chain_head_notin_tail [of m a ps] by simp
  moreover from Cons have "distinct ps" by (auto simp: chain_Cons simp del: chain.simps(2))
  ultimately show ?case by simp
qed

lemma chain_store_other: "a \<notin> set ps \<Longrightarrow> chain (store m a r) p ps = chain m p ps"
  by (induction ps arbitrary: p) (auto simp: chain_Cons load_store load_NULL simp del: chain.simps(2))

lemma chain_same_arenas: "arenas m' = arenas m \<Longrightarrow> chain m' p ps = chain m p ps"
  by (induction ps arbitrary: p) (auto simp: chain_Cons load_def simp del: chain.simps(2))

lemma find_region_chain:
  "chain m a (xs @ t # ys) \<Longrightarrow> \<forall>x\<in>set xs. \<not> qualifies m s x \<Longrightarrow> qualifies m s t \<or> ys = []
   \<Longrightarrow> find_region m a s = Some t"
proof (induction xs arbitrary: a)
  case Nil
  then show ?case
    by (subst find_region.simps) (auto simp: qualifies_def split: option.splits)
next
  case (Cons x xs)
  from Cons.prems(1) obtain r where r: "a = x" "load m x = Some r" "chain m (arena_next r) (xs @ t # ys)"
    by (auto split: option.splits)
  from r(3) have "arena_next r \<noteq> NULL" by (cases xs) (auto simp: load_def split: option.splits if_splits)
  moreover from Cons.prems(2) r(2) have "\<not> s \<le> arena_alloc_size r - arena_size r"
    by (simp add: qualifies_def)
  moreover have "find_region m (arena_next r) s = Some t"
    using r(3) Cons.prems(2,3) by (intro Cons.IH) auto
  ultimately show ?case using r(1,2) by (subst find_region.simps) simp
qed

lemma chain_loadable: "chain m p ps \<Longrightarrow> x \<in> set ps \<Longrightarrow> \<exists>r. load m x = Some r"
  by (induction ps arbitrary: p) (auto simp: chain_Cons simp del: chain.simps(2))

lemma chain_store_same_next:
  "load m t = Some r \<Longrightarrow> arena_next r' = arena_next r \<Longrightarrow>
   chain (store m t r') p ps = chain m p ps"
  by (induction ps arbitrary: p)
    (auto simp: chain_Cons load_store load_NULL simp del: chain.simps(2))

lemma chain_append_node:
  assumes "chain m a (xs @ [t])" and "load m t = Some r" and "n \<notin> set (xs @ [t])"
    and "n \<noteq> NULL" and "arena_next rn = NULL"
  shows "chain (store (store m t (r\<lparr>arena_next := n\<rparr>)) n rn) a (xs @ [t, n])"
  using assms(1,3)
proof (induction xs arbitrary: a)
  case Nil
  with assms(2,4,5) show ?case
    by (auto simp: chain_Cons load_store load_NULL dest: load_Some_not_NULL simp del: chain.simps(2))
next
  case (Cons x xs)
  from Cons.prems(1) have "distinct (x # xs @ [t])" using chain_distinct by fastforce
  then have xt: "x \<noteq> t" by auto
  from Cons.prems(2) have xn: "x \<noteq> n" by auto
  from Cons.prems(1) obtain rx where rx: "a = x" "load m x = Some rx" "chain m (arena_next rx) (xs @ [t])"
    by (auto simp: chain_Cons simp del: chain.simps(2))
  from rx(3) Cons.prems(2)
  have "chain (store (store m t (r\<lparr>arena_next := n\<rparr>)) n rn) (arena_next rx) (xs @ [t, n])"
    by (intro Cons.IH) auto
  with rx xt xn show ?case
    by (auto simp: chain_Cons load_store dest: load_Some_not_NULL simp del: chain.simps(2))
qed

lemma find_region_stops:
  assumes "find_region m a s = Some t"
  shows "\<exists>r. load m t = Some r \<and>
           (arena_next r = NULL \<or> s \<le> arena_alloc_size r - arena_size r)"
  by (rule find_region.raw_induct [OF _ assms]) (auto split: option.splits if_splits)

section \<open>The doubling loop\<close>

lemma push_bit_1_word: "push_bit 1 (c::uintptr_t) = c * 2"
  by (simp add: push_bit_eq_mult)

lemma unat_double: "unat ((c::uintptr_t) * 2) = (2 * unat c) mod 2 ^ 64"
  by (simp add: unat_word_ariths mult.commute)

lemma shift_overflow_iff: "((c::uintptr_t) * 2 < c) = (2 ^ 63 \<le> unat c)"
proof -
  have b: "unat c < 2 ^ 64" using unsigned_less [of c] by simp
  show ?thesis
  proof (cases "unat c < 2 ^ 63")
    case True
    then have "(2 * unat c) mod 2 ^ 64 = 2 * unat c" by simp
    with True show ?thesis unfolding word_less_nat_alt unat_double by simp
  next
    case False
    then have "(2 * unat c) mod 2 ^ 64 = 2 * unat c - 2 ^ 64"
      using b by (simp add: mod_if)
    with False b show ?thesis unfolding word_less_nat_alt unat_double by simp
  qed
qed

lemma unat_double_small: "unat (c::uintptr_t) < 2 ^ 63 \<Longrightarrow> unat (c * 2) = 2 * unat c"
  unfolding unat_double by simp

lemma pow2_bound: "(n::nat) * 2 ^ Suc k < 2 ^ 64 \<Longrightarrow> n < 2 ^ 63"
proof -
  assume a: "n * 2 ^ Suc k < 2 ^ 64"
  have "n * 2 \<le> n * 2 ^ Suc k" by simp
  then have "n * 2 < 2 ^ 64" using a by (rule le_less_trans)
  then show ?thesis by simp
qed

lemma loop_reaches:
  "\<forall>j<k. unat c * 2 ^ j < unat s \<Longrightarrow> unat s \<le> unat c * 2 ^ k \<Longrightarrow> unat c * 2 ^ k < 2 ^ 64
   \<Longrightarrow> new_capacity_loop c s = Some (Inr (word_of_nat (unat c * 2 ^ k)))"
proof (induction k arbitrary: c)
  case 0
  then show ?case by (subst new_capacity_loop.simps) (simp add: word_less_nat_alt)
next
  case (Suc k)
  from Suc.prems(1) have lt: "unat c < unat s" by force
  from Suc.prems(3) have small: "unat c < 2 ^ 63" by (rule pow2_bound)
  then have dbl: "unat (c * 2) = 2 * unat c" by (rule unat_double_small)
  have "\<forall>j<k. unat (c * 2) * 2 ^ j < unat s"
  proof (intro allI impI)
    fix j assume "j < k"
    then have "unat c * 2 ^ Suc j < unat s" using Suc.prems(1) by blast
    then show "unat (c * 2) * 2 ^ j < unat s" by (simp add: dbl mult.assoc)
  qed
  moreover have "unat s \<le> unat (c * 2) * 2 ^ k" using Suc.prems(2) by (simp add: dbl mult.assoc)
  moreover have "unat (c * 2) * 2 ^ k < 2 ^ 64" using Suc.prems(3) by (simp add: dbl mult.assoc)
  ultimately have "new_capacity_loop (c * 2) s = Some (Inr (word_of_nat (unat (c * 2) * 2 ^ k)))"
    by (rule Suc.IH)
  moreover have "\<not> c * 2 < c" using small by (simp add: shift_overflow_iff)
  ultimately show ?case using lt
    by (subst new_capacity_loop.simps) (simp add: word_less_nat_alt dbl mult.assoc push_bit_1_word)
qed

lemma loop_overflows:
  "\<forall>j\<le>k. unat c * 2 ^ j < unat s \<Longrightarrow> unat c * 2 ^ k < 2 ^ 64 \<Longrightarrow> 2 ^ 64 \<le> unat c * 2 ^ Suc k
   \<Longrightarrow> new_capacity_loop c s = Some (Inl Overflow)"
proof (induction k arbitrary: c)
  case 0
  then have "unat c < unat s" "2 ^ 63 \<le> unat c" by auto
  then have "c < s" "c * 2 < c" by (simp add: word_less_nat_alt, simp add: shift_overflow_iff)
  then show ?case by (subst new_capacity_loop.simps) (simp add: push_bit_1_word)
next
  case (Suc k)
  from Suc.prems(1) have lt: "unat c < unat s" by force
  from Suc.prems(2) have small: "unat c < 2 ^ 63" by (rule pow2_bound)
  then have dbl: "unat (c * 2) = 2 * unat c" by (rule unat_double_small)
  have "\<forall>j\<le>k. unat (c * 2) * 2 ^ j < unat s"
  proof (intro allI impI)
    fix j assume "j \<le> k"
    then have "unat c * 2 ^ Suc j < unat s" using Suc.prems(1) by (meson Suc_le_mono)
    then show "unat (c * 2) * 2 ^ j < unat s" by (simp add: dbl mult.assoc)
  qed
  moreover have "unat (c * 2) * 2 ^ k < 2 ^ 64" using Suc.prems(2) by (simp add: dbl mult.assoc)
  moreover have "2 ^ 64 \<le> unat (c * 2) * 2 ^ Suc k" using Suc.prems(3) by (simp add: dbl mult.assoc)
  ultimately have "new_capacity_loop (c * 2) s = Some (Inl Overflow)"
    by (rule Suc.IH)
  moreover have "\<not> c * 2 < c" using small by (simp add: shift_overflow_iff)
  moreover have "c < s" using lt by (simp add: word_less_nat_alt)
  ultimately show ?case
    by (subst new_capacity_loop.simps) (simp add: push_bit_1_word)
qed

lemma least_doubling:
  assumes "d \<noteq> (0::nat)"
  shows "\<exists>k. s \<le> d * 2 ^ k \<and> (\<forall>j<k. d * 2 ^ j < s)"
proof -
  have "s < 2 ^ s" by (rule less_exp)
  also have "\<dots> \<le> d * 2 ^ s" using assms by simp
  finally have ex: "s \<le> d * 2 ^ s" by simp
  define k where "k = (LEAST k. s \<le> d * 2 ^ k)"
  have "s \<le> d * 2 ^ k" unfolding k_def using ex by (rule LeastI)
  moreover have "\<forall>j<k. d * 2 ^ j < s"
    using not_less_Least k_def by (metis not_le)
  ultimately show ?thesis by blast
qed

lemma new_capacity_loop_char:
  assumes "d \<noteq> 0"
  shows "\<exists>k. unat s \<le> unat d * 2 ^ k \<and> (\<forall>j<k. unat d * 2 ^ j < unat s) \<and>
             new_capacity_loop d s =
               Some (if unat d * 2 ^ k < 2 ^ 64 then Inr (word_of_nat (unat d * 2 ^ k))
                     else Inl Overflow)"
proof -
  from assms have d0: "unat d \<noteq> 0" by (simp add: unat_eq_0)
  from least_doubling [OF d0, of "unat s"] obtain k where
    k: "unat s \<le> unat d * 2 ^ k" "\<forall>j<k. unat d * 2 ^ j < unat s" by blast
  show ?thesis
  proof (cases "unat d * 2 ^ k < 2 ^ 64")
    case True
    with k loop_reaches [of k d s] show ?thesis by auto
  next
    case False
    have d64: "unat d * 2 ^ 0 < 2 ^ 64" using unsigned_less [of d] by simp
    define i where "i = (LEAST i. 2 ^ 64 \<le> unat d * 2 ^ Suc i)"
    have exi: "\<exists>i. 2 ^ 64 \<le> unat d * 2 ^ Suc i"
    proof -
      from False d64 have "k \<noteq> 0" by (cases k) auto
      then obtain k' where "k = Suc k'" by (cases k) auto
      with False show ?thesis by (auto simp: not_less)
    qed
    then have i1: "2 ^ 64 \<le> unat d * 2 ^ Suc i" unfolding i_def by (rule LeastI_ex)
    have i2: "unat d * 2 ^ i < 2 ^ 64"
    proof (cases i)
      case 0 then show ?thesis using d64 by simp
    next
      case (Suc i')
      then have "i' < i" by simp
      then have "\<not> 2 ^ 64 \<le> unat d * 2 ^ Suc i'" unfolding i_def by (rule not_less_Least)
      with Suc show ?thesis by simp
    qed
    have ik: "i < k"
    proof (rule ccontr)
      assume "\<not> i < k"
      then have "k \<le> i" by simp
      then have "(2::nat) ^ k \<le> 2 ^ i" by simp
      then have "unat d * 2 ^ k \<le> unat d * 2 ^ i" by simp
      with i2 False show False by simp
    qed
    then have "\<forall>j\<le>i. unat d * 2 ^ j < unat s" using k(2) by auto
    from loop_overflows [OF this i2 i1] False k show ?thesis by auto
  qed
qed

lemma unat_size1: "unat (drop_bit 2 (size0::uintptr_t) + 1) = unat size0 div 4 + 1"
proof -
  have a: "unat (drop_bit 2 size0) = unat size0 div 4"
    by (simp add: unat_drop_bit_eq drop_bit_eq_div unat_div)
  have "unat size0 < 2 ^ 64" using unsigned_less [of size0] by simp
  then have "unat size0 div 4 + 1 < 2 ^ 64" by simp
  then show ?thesis by (simp add: unat_word_ariths a)
qed

lemma size1_not_0: "drop_bit 2 (size0::uintptr_t) + 1 \<noteq> 0"
proof
  assume "drop_bit 2 size0 + 1 = 0"
  then have "unat (drop_bit 2 size0 + 1) = 0" by simp
  then show False by (simp add: unat_size1)
qed

lemma size1_bound: "unat (drop_bit 2 (size0::uintptr_t) + 1) \<le> 2 ^ 62"
proof -
  have "unat size0 < 2 ^ 64" using unsigned_less [of size0] by simp
  then have "unat size0 div 4 < 2 ^ 62" by simp
  then show ?thesis by (simp add: unat_size1)
qed

text \<open>Inside \<^verbatim>\<open>Arena_alloc\<close> the request is at most \<open>2 ^ 62\<close> units, and the loop cannot overflow.\<close>

lemma new_capacity_in_alloc:
  assumes "d \<noteq> 0" and "unat s \<le> 2 ^ 62"
  shows "\<exists>k. unat s \<le> unat d * 2 ^ k \<and> (\<forall>j<k. unat d * 2 ^ j < unat s) \<and> unat d * 2 ^ k < 2 ^ 64 \<and>
             new_capacity_loop d s = Some (Inr (word_of_nat (unat d * 2 ^ k)))"
proof -
  from new_capacity_loop_char [OF assms(1), of s] obtain k where
    k: "unat s \<le> unat d * 2 ^ k" "\<forall>j<k. unat d * 2 ^ j < unat s"
       "new_capacity_loop d s =
               Some (if unat d * 2 ^ k < 2 ^ 64 then Inr (word_of_nat (unat d * 2 ^ k))
                     else Inl Overflow)" by blast
  have "unat d * 2 ^ k < 2 ^ 64"
  proof (cases k)
    case 0
    then show ?thesis using unsigned_less [of d] by simp
  next
    case (Suc k')
    with k(2) have "unat d * 2 ^ k' < unat s" by simp
    with assms(2) have "unat d * 2 ^ k' < 2 ^ 62" by simp
    with Suc show ?thesis by simp
  qed
  with k show ?thesis by auto
qed

lemma new_capacity_loop_error_aux:
  assumes "new_capacity_loop c s = Some y"
  shows "y = Inl e \<longrightarrow> e = Overflow"
  by (rule new_capacity_loop.raw_induct [OF _ assms]) (auto split: if_splits)

lemma new_capacity_loop_error: "new_capacity_loop c s = Some (Inl e) \<Longrightarrow> e = Overflow"
  using new_capacity_loop_error_aux by blast

lemma new_capacity_loop_zero_aux:
  assumes "new_capacity_loop c s = Some y"
  shows "c = 0 \<longrightarrow> s = 0"
  by (rule new_capacity_loop.raw_induct [OF _ assms]) (auto split: if_splits simp: word_gt_0)

lemma new_capacity_loop_zero: "s \<noteq> 0 \<Longrightarrow> new_capacity_loop 0 s = None"
  using new_capacity_loop_zero_aux [of 0 s] by (cases "new_capacity_loop 0 s") auto

section \<open>The paths of \<^verbatim>\<open>Arena_alloc\<close>\<close>

lemma store_shadowed:
  "n \<noteq> t \<Longrightarrow> store (store (store m n x) t y) n z = store (store m t y) n z"
  by (simp add: store_def)

lemma store_store: "store (store m t x) t y = store m t y"
  by (simp add: store_def)

lemma Arena_alloc_fast_path:
  assumes "size0 \<noteq> 0" and "find_region m a (drop_bit 2 size0 + 1) = Some t"
    and "load m t = Some r"
    and "drop_bit 2 size0 + 1 \<le> arena_alloc_size r - arena_size r"
  shows "Arena_alloc d m a size0 =
           Some (Inr (arena_region r + 8 * arena_size r),
                 store m t (r\<lparr>arena_size := arena_size r + (drop_bit 2 size0 + 1)\<rparr>))"
  using assms by (simp add: Arena_alloc_def)

lemma Arena_alloc_in_place:
  assumes "size0 \<noteq> 0" and "find_region m a (drop_bit 2 size0 + 1) = Some t"
    and "load m t = Some r"
    and "\<not> drop_bit 2 size0 + 1 \<le> arena_alloc_size r - arena_size r"
    and "new_capacity_loop d (drop_bit 2 size0 + 1) = Some (Inr c)"
    and "provider m = b # rest" and "b \<noteq> NULL" and "arena_region r = NULL"
  shows "Arena_alloc d m a size0 =
           Some (Inr b,
                 store (m\<lparr>blocks := (blocks m)(b \<mapsto> c), provider := rest\<rparr>) t
                   (r\<lparr>arena_region := b, arena_alloc_size := c,
                      arena_size := arena_size r + (drop_bit 2 size0 + 1)\<rparr>))"
  using assms by (simp add: Arena_alloc_def COOL_ARENA_FUNC_ALLOC_def)

lemma Arena_alloc_append:
  assumes "size0 \<noteq> 0" and "find_region m a (drop_bit 2 size0 + 1) = Some t"
    and "load m t = Some r"
    and "\<not> drop_bit 2 size0 + 1 \<le> arena_alloc_size r - arena_size r"
    and "new_capacity_loop d (drop_bit 2 size0 + 1) = Some (Inr c)"
    and "provider m = b # n # rest" and "b \<noteq> NULL" and "arena_region r \<noteq> NULL"
    and "n \<noteq> NULL" and "n \<noteq> t"
  shows "Arena_alloc d m a size0 =
           Some (Inr b,
                 store
                   (store (m\<lparr>blocks := (blocks m)(b \<mapsto> c, n \<mapsto> sizeof_Arena), provider := rest\<rparr>)
                      t (r\<lparr>arena_next := n\<rparr>))
                   n \<lparr>arena_region = b, arena_size = drop_bit 2 size0 + 1,
                      arena_alloc_size = c, arena_next = NULL\<rparr>)"
proof -
  from assms(3) have "t \<noteq> NULL" by (rule load_Some_not_NULL)
  with assms show ?thesis
    by (simp add: Arena_alloc_def COOL_ARENA_FUNC_ALLOC_def Arena_init_def load_store
        load_other_fields store_shadowed)
qed

lemma Arena_alloc_Inr_cases:
  assumes "Arena_alloc d m a size0 = Some (Inr p, m')" and "size0 \<noteq> 0"
  obtains
    (fast) t r where "find_region m a (drop_bit 2 size0 + 1) = Some t" "load m t = Some r"
      "drop_bit 2 size0 + 1 \<le> arena_alloc_size r - arena_size r"
      "p = arena_region r + 8 * arena_size r"
      "m' = store m t (r\<lparr>arena_size := arena_size r + (drop_bit 2 size0 + 1)\<rparr>)"
  | (in_place) t r c rest where "find_region m a (drop_bit 2 size0 + 1) = Some t"
      "load m t = Some r" "\<not> drop_bit 2 size0 + 1 \<le> arena_alloc_size r - arena_size r"
      "new_capacity_loop d (drop_bit 2 size0 + 1) = Some (Inr c)"
      "provider m = p # rest" "p \<noteq> NULL" "arena_region r = NULL"
      "m' = store (m\<lparr>blocks := (blocks m)(p \<mapsto> c), provider := rest\<rparr>) t
                   (r\<lparr>arena_region := p, arena_alloc_size := c,
                      arena_size := arena_size r + (drop_bit 2 size0 + 1)\<rparr>)"
  | (appended) t r c n rest where "find_region m a (drop_bit 2 size0 + 1) = Some t"
      "load m t = Some r" "\<not> drop_bit 2 size0 + 1 \<le> arena_alloc_size r - arena_size r"
      "new_capacity_loop d (drop_bit 2 size0 + 1) = Some (Inr c)"
      "provider m = p # n # rest" "p \<noteq> NULL" "arena_region r \<noteq> NULL" "n \<noteq> NULL" "n \<noteq> t"
      "m' = store
                   (store (m\<lparr>blocks := (blocks m)(p \<mapsto> c, n \<mapsto> sizeof_Arena), provider := rest\<rparr>)
                      t (r\<lparr>arena_next := n\<rparr>))
                   n \<lparr>arena_region = p, arena_size = drop_bit 2 size0 + 1,
                      arena_alloc_size = c, arena_next = NULL\<rparr>"
  | (aliased) t r c rest where "find_region m a (drop_bit 2 size0 + 1) = Some t"
      "load m t = Some r" "\<not> drop_bit 2 size0 + 1 \<le> arena_alloc_size r - arena_size r"
      "new_capacity_loop d (drop_bit 2 size0 + 1) = Some (Inr c)"
      "provider m = p # t # rest" "p \<noteq> NULL" "arena_region r \<noteq> NULL"
      "m' = store (m\<lparr>blocks := (blocks m)(p \<mapsto> c, t \<mapsto> sizeof_Arena), provider := rest\<rparr>)
                   t \<lparr>arena_region = p, arena_size = drop_bit 2 size0 + 1,
                      arena_alloc_size = c, arena_next = t\<rparr>"
proof -
  from assms obtain t where t: "find_region m a (drop_bit 2 size0 + 1) = Some t"
    by (auto simp: Arena_alloc_def Let_def split: option.splits)
  with assms obtain r where r: "load m t = Some r"
    by (auto simp: Arena_alloc_def Let_def split: option.splits)
  show thesis
  proof (cases "drop_bit 2 size0 + 1 \<le> arena_alloc_size r - arena_size r")
    case True
    with assms t r show thesis by (intro fast [of t r]) (auto simp: Arena_alloc_def)
  next
    case False
    with assms t r obtain c where c: "new_capacity_loop d (drop_bit 2 size0 + 1) = Some (Inr c)"
      by (auto simp: Arena_alloc_def Let_def split: option.splits sum.splits)
    have unf: "Arena_alloc d m a size0 =
      (case COOL_ARENA_FUNC_ALLOC m c of (new_region, m1) \<Rightarrow>
               if new_region = NULL then Some (Inl NoMemory, m1)
               else if arena_region r \<noteq> NULL
               then
                 (case COOL_ARENA_FUNC_ALLOC m1 sizeof_Arena of (new_arena, m2) \<Rightarrow>
                  if new_arena = NULL
                  then
                    (case free m2 new_region of
                      None \<Rightarrow> None
                    | Some m3 \<Rightarrow> Some (Inl NoMemory, m3))
                  else
                    let m3 = Arena_init m2 new_arena in
                    (case load m3 t of
                      None \<Rightarrow> None
                    | Some r3 \<Rightarrow>
                      let m4 = store m3 t (r3\<lparr>arena_next := new_arena\<rparr>) in
                      (case load m4 new_arena of
                        None \<Rightarrow> None
                      | Some r4 \<Rightarrow>
                        Some (Inr new_region,
                              store m4 new_arena
                                (r4\<lparr>arena_region := new_region,
                                    arena_alloc_size := c,
                                    arena_size := arena_size r4 + (drop_bit 2 size0 + 1)\<rparr>)))))
               else
                 Some (Inr new_region,
                       store m1 t
                         (r\<lparr>arena_region := new_region,
                            arena_alloc_size := c,
                            arena_size := arena_size r + (drop_bit 2 size0 + 1)\<rparr>)))"
      using assms(2) t r False c by (simp add: Arena_alloc_def Let_def)
    from r have tn: "t \<noteq> NULL" by (rule load_Some_not_NULL)
    show thesis
    proof (cases "provider m")
      case Nil
      with unf assms(1) show thesis by (simp add: COOL_ARENA_FUNC_ALLOC_def)
    next
      case (Cons b rest)
      show thesis
      proof (cases "b = NULL")
        case True
        with unf assms(1) Cons show thesis by (simp add: COOL_ARENA_FUNC_ALLOC_def)
      next
        case bn: False
        show thesis
        proof (cases "arena_region r = NULL")
          case True
          with unf assms(1) Cons bn have "p = b"
            "m' = store (m\<lparr>blocks := (blocks m)(b \<mapsto> c), provider := rest\<rparr>) t
                   (r\<lparr>arena_region := b, arena_alloc_size := c,
                      arena_size := arena_size r + (drop_bit 2 size0 + 1)\<rparr>)"
            by (simp_all add: COOL_ARENA_FUNC_ALLOC_def)
          with t r False c Cons bn True show thesis by (intro in_place [of t r c rest]) auto
        next
          case nn: False
          show thesis
          proof (cases rest)
            case Nil
            with unf assms(1) Cons bn nn show thesis
              by (simp add: COOL_ARENA_FUNC_ALLOC_def split: option.splits)
          next
            case (Cons n rest')
            note rest = Cons
            show thesis
            proof (cases "n = NULL")
              case True
              with unf assms(1) \<open>provider m = b # rest\<close> bn nn rest show thesis
                by (simp add: COOL_ARENA_FUNC_ALLOC_def split: option.splits)
            next
              case n0: False
              show thesis
              proof (cases "n = t")
                case True
                with unf assms(1) \<open>provider m = b # rest\<close> bn nn rest n0 tn have "p = b"
                  "m' = store (m\<lparr>blocks := (blocks m)(b \<mapsto> c, t \<mapsto> sizeof_Arena), provider := rest'\<rparr>)
                   t \<lparr>arena_region = b, arena_size = drop_bit 2 size0 + 1,
                      arena_alloc_size = c, arena_next = t\<rparr>"
                  by (simp_all add: COOL_ARENA_FUNC_ALLOC_def Arena_init_def Let_def load_store
                      load_other_fields store_store)
                with t r False c \<open>provider m = b # rest\<close> bn nn rest True show thesis
                  by (intro aliased [of t r c rest']) auto
              next
                case nt: False
                have "Arena_alloc d m a size0 =
                   Some (Inr b,
                   store
                   (store (m\<lparr>blocks := (blocks m)(b \<mapsto> c, n \<mapsto> sizeof_Arena), provider := rest'\<rparr>)
                      t (r\<lparr>arena_next := n\<rparr>))
                   n \<lparr>arena_region = b, arena_size = drop_bit 2 size0 + 1,
                      arena_alloc_size = c, arena_next = NULL\<rparr>)"
                  using assms(2) t r False c \<open>provider m = b # rest\<close> bn nn rest n0 nt
                  by (intro Arena_alloc_append) auto
                with assms(1) show thesis
                  using t r False c \<open>provider m = b # rest\<close> bn nn rest n0 nt
                  by (intro appended [of t r c n rest']) auto
              qed
            qed
          qed
        qed
      qed
    qed
  qed
qed

lemma Arena_alloc_Inl_cases:
  assumes "Arena_alloc d m a size0 = Some (Inl e, m')"
  shows "arenas m' = arenas m"
  using assms
  by (auto simp: Arena_alloc_def Let_def COOL_ARENA_FUNC_ALLOC_def COOL_ARENA_FUNC_FREE_def
      free_def split: option.splits sum.splits list.splits if_splits prod.splits)

lemma arenas_store: "arenas (store m t r) = (arenas m)(t \<mapsto> r)"
  by (simp add: store_def)

lemma alloc_frame_one_write:
  assumes "arenas m t = Some r" and "arenas m' = (arenas m)(t \<mapsto> r')"
    and "arena_next r' = arena_next r" and "arena_size r' = arena_size r + s"
  shows "alloc_frame m m' t s t"
  unfolding alloc_frame_def using assms by auto

lemma alloc_frame_appended:
  assumes "arenas m t = Some r" and "arenas m n = None"
    and "arenas m' = (arenas m)(t \<mapsto> r\<lparr>arena_next := n\<rparr>, n \<mapsto> rn)"
    and "arena_next r = NULL" and "arena_size rn = s"
  shows "alloc_frame m m' t s n"
  unfolding alloc_frame_def using assms by auto

section \<open>Reset and release on a chain\<close>

text \<open>
  On a chain that ends, \<^verbatim>\<open>Arena_reset\<close> and \<^verbatim>\<open>Arena_free\<close> return. The first writes
  \<^verbatim>\<open>_size = 0\<close> in every struct of the chain; the second writes \<^verbatim>\<open>_region = NULL\<close> and
  \<^verbatim>\<open>_next = NULL\<close> there, and leaves every \<^verbatim>\<open>_size\<close> and \<^verbatim>\<open>_alloc_size\<close> as it was.
\<close>

lemma Arena_reset_chain:
  "chain m a ps \<Longrightarrow>
   \<exists>m'. Arena_reset m a = Some m' \<and> blocks m' = blocks m \<and> provider m' = provider m \<and>
     provider_is_libc m' = provider_is_libc m \<and>
     (\<forall>p. arenas m' p =
        (if p \<in> set ps then map_option (\<lambda>r. r\<lparr>arena_size := 0\<rparr>) (arenas m p)
         else arenas m p))"
proof (induction ps arbitrary: m a)
  case Nil
  then show ?case by (subst Arena_reset.simps) simp
next
  case (Cons q qs)
  from Cons.prems obtain r where r: "a = q" "load m q = Some r" "chain m (arena_next r) qs"
    by (auto simp: chain_Cons simp del: chain.simps(2))
  from r(2) have qn: "q \<noteq> NULL" and ar: "arenas m q = Some r"
    by (auto simp: load_def split: if_splits)
  from Cons.prems r(1) have notin: "q \<notin> set qs" using chain_head_notin_tail by simp
  let ?m1 = "store m q (r\<lparr>arena_size := 0\<rparr>)"
  from r(3) notin have "chain ?m1 (arena_next r) qs" by (simp add: chain_store_other)
  from Cons.IH [OF this] obtain m' where m': "Arena_reset ?m1 (arena_next r) = Some m'"
    "blocks m' = blocks ?m1" "provider m' = provider ?m1"
    "provider_is_libc m' = provider_is_libc ?m1"
    "\<forall>p. arenas m' p =
        (if p \<in> set qs then map_option (\<lambda>r. r\<lparr>arena_size := 0\<rparr>) (arenas ?m1 p)
         else arenas ?m1 p)" by blast
  have "Arena_reset m a = Some m'"
    using r(1,2) qn m'(1) by (subst Arena_reset.simps) simp
  moreover have "blocks m' = blocks m" "provider m' = provider m"
    "provider_is_libc m' = provider_is_libc m"
    using m'(2,3,4) by (simp_all add: store_def)
  moreover have "\<forall>p. arenas m' p =
        (if p \<in> set (q # qs) then map_option (\<lambda>r. r\<lparr>arena_size := 0\<rparr>) (arenas m p)
         else arenas m p)"
    using m'(5) notin ar by (auto simp: store_def)
  ultimately show ?case by blast
qed

lemma Arena_free_chain:
  "chain m a ps \<Longrightarrow>
   \<exists>m'. Arena_free m a = Some m' \<and> provider m' = provider m \<and>
     (\<forall>p. arenas m' p =
        (if p \<in> set ps
         then map_option (\<lambda>r. r\<lparr>arena_region := NULL, arena_next := NULL\<rparr>) (arenas m p)
         else arenas m p))"
proof (induction ps arbitrary: m a)
  case Nil
  then show ?case by (subst Arena_free.simps) simp
next
  case (Cons q qs)
  from Cons.prems obtain r where r: "a = q" "load m q = Some r" "chain m (arena_next r) qs"
    by (auto simp: chain_Cons simp del: chain.simps(2))
  from r(2) have qn: "q \<noteq> NULL" and ar: "arenas m q = Some r"
    by (auto simp: load_def split: if_splits)
  from Cons.prems r(1) have notin: "q \<notin> set qs" using chain_head_notin_tail by simp
  let ?m0 = "COOL_ARENA_FUNC_FREE m (arena_region r)"
  let ?m1 = "store ?m0 q (r\<lparr>arena_region := NULL, arena_next := NULL\<rparr>)"
  have a0: "arenas ?m0 = arenas m" "provider ?m0 = provider m"
    by (simp_all add: COOL_ARENA_FUNC_FREE_def)
  from r(3) have "chain ?m0 (arena_next r) qs" using chain_same_arenas [OF a0(1)] by simp
  with notin have "chain ?m1 (arena_next r) qs" by (simp add: chain_store_other)
  from Cons.IH [OF this] obtain m' where m': "Arena_free ?m1 (arena_next r) = Some m'"
    "provider m' = provider ?m1"
    "\<forall>p. arenas m' p =
        (if p \<in> set qs
         then map_option (\<lambda>r. r\<lparr>arena_region := NULL, arena_next := NULL\<rparr>) (arenas ?m1 p)
         else arenas ?m1 p)" by blast
  have "Arena_free m a = Some m'"
    using r(1,2) qn m'(1) by (subst Arena_free.simps) simp
  moreover have "provider m' = provider m"
    using m'(2) a0(2) by (simp add: store_def)
  moreover have "\<forall>p. arenas m' p =
        (if p \<in> set (q # qs)
         then map_option (\<lambda>r. r\<lparr>arena_region := NULL, arena_next := NULL\<rparr>) (arenas m p)
         else arenas m p)"
    using m'(3) notin ar a0(1) by (auto simp: store_def)
  ultimately show ?case by blast
qed

lemma chain_same_links:
  "\<forall>p. map_option arena_next (arenas m' p) = map_option arena_next (arenas m p) \<Longrightarrow>
   chain m' a ps = chain m a ps"
proof (induction ps arbitrary: a)
  case Nil
  then show ?case by simp
next
  case (Cons q qs)
  from Cons.prems have "map_option arena_next (arenas m' q) = map_option arena_next (arenas m q)"
    by blast
  then have "(\<exists>r. load m' q = Some r \<and> chain m' (arena_next r) qs) =
        (\<exists>r. load m q = Some r \<and> chain m (arena_next r) qs)"
    using Cons.IH [OF Cons.prems] by (cases "arenas m q"; cases "arenas m' q") (auto simp: load_def)
  then show ?case by (simp add: chain_Cons del: chain.simps(2))
qed

section \<open>The invariants, without release\<close>

text \<open>
  \<^verbatim>\<open>Arena_init\<close>, \<^verbatim>\<open>Arena_alloc\<close> and \<^verbatim>\<open>Arena_reset\<close> keep the invariants of the data model,
  and so does every call sequence without a release. On a memory that satisfies them, a
  successful allocation advances one \<^verbatim>\<open>_size\<close> without wrapping and within the capacity,
  and after a reset a request that fits the capacity of a region of the chain is served
  at offset zero by the first such region.
\<close>

lemma fits_no_wrap:
  fixes used cap s :: uintptr_t
  assumes "used \<le> cap" and "s \<le> cap - used"
  shows "used + s \<le> cap" and "used \<le> used + s"
    and "unat (used + s) = unat used + unat s"
proof -
  from assms(1) have "unat (cap - used) = unat cap - unat used" by (simp add: unat_sub)
  with assms have le: "unat used + unat s \<le> unat cap"
    by (simp add: word_le_nat_alt)
  have "unat cap < 2 ^ 64" using unsigned_less [of cap] by simp
  with le show eq: "unat (used + s) = unat used + unat s"
    by (simp add: unat_word_ariths)
  with le show "used + s \<le> cap" and "used \<le> used + s" by (simp_all add: word_le_nat_alt)
qed

lemma new_capacity_loop_covers_aux:
  assumes "new_capacity_loop c s = Some y"
  shows "\<forall>c'. y = Inr c' \<longrightarrow> s \<le> c'"
  by (rule new_capacity_loop.raw_induct [OF _ assms]) (auto split: if_splits)

lemma new_capacity_loop_covers: "new_capacity_loop c s = Some (Inr c') \<Longrightarrow> s \<le> c'"
  using new_capacity_loop_covers_aux by blast

lemma new_capacity_positive:
  assumes "new_capacity_loop d (drop_bit 2 size0 + 1) = Some (Inr c)"
  shows "0 < c"
proof -
  from assms have "drop_bit 2 size0 + 1 \<le> c" by (rule new_capacity_loop_covers)
  moreover have "0 < drop_bit 2 size0 + 1" using size1_not_0 [of size0] by (simp add: word_gt_0)
  ultimately show ?thesis by simp
qed

lemma arena_ok_update:
  "arena_ok m \<Longrightarrow> region_ok r \<Longrightarrow> arenas m' = (arenas m)(t \<mapsto> r) \<Longrightarrow> arena_ok m'"
  by (simp add: arena_ok_def)

lemma Arena_init_ok: "arena_ok m \<Longrightarrow> arena_ok (Arena_init m a)"
  by (simp add: arena_ok_def Arena_init_def store_def region_ok_def)

lemma Arena_alloc_ok:
  assumes "Arena_alloc d m a size0 = Some (res, m')" and "arena_ok m"
  shows "arena_ok m'"
proof (cases res)
  case (Inl e)
  with assms(1) have "arenas m' = arenas m" by (simp add: Arena_alloc_Inl_cases)
  with assms(2) show ?thesis by (simp add: arena_ok_def)
next
  case (Inr p)
  show ?thesis
  proof (cases "size0 = 0")
    case True
    with assms show ?thesis by (simp add: Arena_alloc_def)
  next
    case False
    from assms(1) Inr have "Arena_alloc d m a size0 = Some (Inr p, m')" by simp
    then show ?thesis using False
    proof (cases rule: Arena_alloc_Inr_cases)
      case (fast t r)
      from fast(2) have ar: "arenas m t = Some r" by (auto simp: load_def split: if_splits)
      with assms(2) have ok: "region_ok r" by (auto simp: arena_ok_def)
      then have "arena_size r \<le> arena_alloc_size r" by (simp add: region_ok_def)
      then have "arena_size r + (drop_bit 2 size0 + 1) \<le> arena_alloc_size r"
        using fast(3) by (rule fits_no_wrap(1))
      with ok have "region_ok (r\<lparr>arena_size := arena_size r + (drop_bit 2 size0 + 1)\<rparr>)"
        by (simp add: region_ok_def)
      with assms(2) show ?thesis by (rule arena_ok_update) (simp add: fast(5) store_def)
    next
      case (in_place t r c rest)
      from in_place(2) have ar: "arenas m t = Some r" by (auto simp: load_def split: if_splits)
      with assms(2) have ok: "region_ok r" by (auto simp: arena_ok_def)
      with in_place(7) have "arena_size r = 0" by (auto simp: region_ok_def word_gt_0)
      moreover have "drop_bit 2 size0 + 1 \<le> c" using in_place(4) by (rule new_capacity_loop_covers)
      moreover have "0 < c" using in_place(4) by (rule new_capacity_positive)
      ultimately have "region_ok (r\<lparr>arena_region := p, arena_alloc_size := c,
                      arena_size := arena_size r + (drop_bit 2 size0 + 1)\<rparr>)"
        using in_place(6) by (simp add: region_ok_def)
      with assms(2) show ?thesis by (rule arena_ok_update) (simp add: in_place(8) store_def)
    next
      case (appended t r c n rest)
      from appended(2) have ar: "arenas m t = Some r" by (auto simp: load_def split: if_splits)
      with assms(2) have ok: "region_ok r" by (auto simp: arena_ok_def)
      then have ok1: "region_ok (r\<lparr>arena_next := n\<rparr>)" by (simp add: region_ok_def)
      have "drop_bit 2 size0 + 1 \<le> c" using appended(4) by (rule new_capacity_loop_covers)
      moreover have "0 < c" using appended(4) by (rule new_capacity_positive)
      ultimately have ok2: "region_ok \<lparr>arena_region = p, arena_size = drop_bit 2 size0 + 1,
                      arena_alloc_size = c, arena_next = NULL\<rparr>"
        using appended(6) by (simp add: region_ok_def)
      let ?m1 = "store (m\<lparr>blocks := (blocks m)(p \<mapsto> c, n \<mapsto> sizeof_Arena), provider := rest\<rparr>)
                      t (r\<lparr>arena_next := n\<rparr>)"
      from assms(2) ok1 have "arena_ok ?m1" by (rule arena_ok_update) (simp add: store_def)
      then show ?thesis using ok2 by (rule arena_ok_update) (simp add: appended(10) store_def)
    next
      case (aliased t r c rest)
      have "drop_bit 2 size0 + 1 \<le> c" using aliased(4) by (rule new_capacity_loop_covers)
      moreover have "0 < c" using aliased(4) by (rule new_capacity_positive)
      ultimately have "region_ok \<lparr>arena_region = p, arena_size = drop_bit 2 size0 + 1,
                      arena_alloc_size = c, arena_next = t\<rparr>"
        using aliased(6) by (simp add: region_ok_def)
      with assms(2) show ?thesis by (rule arena_ok_update) (simp add: aliased(8) store_def)
    qed
  qed
qed

lemma arena_ok_reset_one:
  assumes "arena_ok m" and "load m a = Some r"
  shows "arena_ok (store m a (r\<lparr>arena_size := 0\<rparr>))"
proof -
  from assms(2) have "arenas m a = Some r" by (auto simp: load_def split: if_splits)
  with assms(1) have "region_ok r" by (auto simp: arena_ok_def)
  then have "region_ok (r\<lparr>arena_size := 0\<rparr>)" by (simp add: region_ok_def)
  with assms(1) show ?thesis by (rule arena_ok_update) (simp add: store_def)
qed

lemma Arena_reset_ok_aux:
  assumes "Arena_reset m a = Some m'"
  shows "arena_ok m \<longrightarrow> arena_ok m'"
proof (rule Arena_reset.raw_induct [OF _ assms])
  fix reset m a m'
  assume IH: "\<And>m a m'. reset m a = Some m' \<Longrightarrow> arena_ok m \<longrightarrow> arena_ok m'"
    and step: "(if a = NULL then Some m
      else
        (case load m a of
          None \<Rightarrow> None
        | Some r \<Rightarrow> reset (store m a (r\<lparr>arena_size := 0\<rparr>)) (arena_next r))) = Some m'"
  show "arena_ok m \<longrightarrow> arena_ok m'"
  proof (cases "a = NULL")
    case True
    with step show ?thesis by simp
  next
    case False
    with step obtain r where r: "load m a = Some r"
      "reset (store m a (r\<lparr>arena_size := 0\<rparr>)) (arena_next r) = Some m'"
      by (auto split: option.splits)
    from IH [OF r(2)] arena_ok_reset_one [OF _ r(1)] show ?thesis by blast
  qed
qed

lemma Arena_reset_ok: "Arena_reset m a = Some m' \<Longrightarrow> arena_ok m \<Longrightarrow> arena_ok m'"
  using Arena_reset_ok_aux by blast

lemma run_ok:
  "run d h cs (ps, m) = Some (ps', m') \<Longrightarrow> Release \<notin> set cs \<Longrightarrow> arena_ok m \<Longrightarrow> arena_ok m'"
proof (induction cs arbitrary: ps m)
  case Nil
  then show ?case by simp
next
  case (Cons c cs)
  show ?case
  proof (cases c)
    case Initialize
    with Cons.prems have "run d h cs (ps, Arena_init m h) = Some (ps', m')" by simp
    moreover from Cons.prems have "arena_ok (Arena_init m h)" by (simp add: Arena_init_ok)
    ultimately show ?thesis using Cons.prems(2) by (intro Cons.IH [of ps "Arena_init m h"]) auto
  next
    case (Allocate n)
    with Cons.prems(1) obtain res m1 where
      a: "Arena_alloc d m h n = Some (res, m1)" "run d h cs (ps @ [C_return res], m1) = Some (ps', m')"
      by (auto split: option.splits)
    from a(1) Cons.prems(3) have "arena_ok m1" by (rule Arena_alloc_ok)
    with a(2) Cons.prems(2) show ?thesis by (intro Cons.IH [of "ps @ [C_return res]" m1]) auto
  next
    case Reset
    with Cons.prems(1) obtain m1 where
      a: "Arena_reset m h = Some m1" "run d h cs (ps, m1) = Some (ps', m')"
      by (auto split: option.splits)
    from a(1) Cons.prems(3) have "arena_ok m1" by (rule Arena_reset_ok)
    with a(2) Cons.prems(2) show ?thesis by (intro Cons.IH [of ps m1]) auto
  next
    case Release
    with Cons.prems(2) show ?thesis by simp
  qed
qed

lemma allocation_within_capacity:
  assumes "arena_ok m" and "Arena_alloc d m a size0 = Some (Inr p, m')" and "size0 \<noteq> 0"
    and "\<forall>n\<in>set (provider m). n \<noteq> NULL \<longrightarrow> arenas m n = None"
  shows "\<exists>q r'. arenas m' q = Some r' \<and> arena_size r' \<le> arena_alloc_size r' \<and>
           unat (arena_size r') =
             unat (case arenas m q of None \<Rightarrow> 0 | Some r \<Rightarrow> arena_size r) +
             unat (drop_bit 2 size0 + 1)"
  using assms(2,3)
proof (cases rule: Arena_alloc_Inr_cases)
  case (fast t r)
  from fast(2) have ar: "arenas m t = Some r" by (auto simp: load_def split: if_splits)
  with assms(1) have le: "arena_size r \<le> arena_alloc_size r" by (auto simp: arena_ok_def region_ok_def)
  let ?s = "drop_bit 2 size0 + 1"
  from le fast(3) have a: "arena_size r + ?s \<le> arena_alloc_size r"
    by (rule fits_no_wrap(1))
  from le fast(3) have "unat (arena_size r + ?s) = unat (arena_size r) + unat ?s"
    by (rule fits_no_wrap(3))
  with a ar fast(5) show ?thesis
    by (intro exI [of _ t] exI [of _ "r\<lparr>arena_size := arena_size r + ?s\<rparr>"]) (simp add: store_def)
next
  case (in_place t r c rest)
  from in_place(2) have ar: "arenas m t = Some r" by (auto simp: load_def split: if_splits)
  with assms(1) have "region_ok r" by (auto simp: arena_ok_def)
  with in_place(7) have z: "arena_size r = 0" by (auto simp: region_ok_def word_gt_0)
  have "drop_bit 2 size0 + 1 \<le> c" using in_place(4) by (rule new_capacity_loop_covers)
  with z ar in_place(8) show ?thesis
    by (intro exI [of _ t]) (simp add: store_def)
next
  case (appended t r c n rest)
  from appended(5,8) assms(4) have nn: "arenas m n = None" by simp
  have "drop_bit 2 size0 + 1 \<le> c" using appended(4) by (rule new_capacity_loop_covers)
  with nn appended(10) show ?thesis
    by (intro exI [of _ n]) (simp add: store_def)
next
  case (aliased t r c rest)
  from aliased(2) have "arenas m t = Some r" "t \<noteq> NULL" by (auto simp: load_def split: if_splits)
  with aliased(5) assms(4) have False by simp
  then show ?thesis ..
qed

lemma reset_then_allocate:
  assumes "chain m a ps" and "arena_ok m" and "size0 \<noteq> 0"
    and "x \<in> set ps" and "arenas m x = Some rx"
    and "drop_bit 2 size0 + 1 \<le> arena_alloc_size rx"
  shows "\<exists>m1 t r. Arena_reset m a = Some m1 \<and> Arena_reset m1 a = Some m1 \<and>
           t \<in> set ps \<and> load m1 t = Some r \<and> arena_size r = 0 \<and> arena_region r \<noteq> NULL \<and>
           Arena_alloc d m1 a size0 =
             Some (Inr (arena_region r), store m1 t (r\<lparr>arena_size := drop_bit 2 size0 + 1\<rparr>))"
proof -
  let ?s = "drop_bit 2 size0 + 1"
  from Arena_reset_chain [OF assms(1)] obtain m1 where m1: "Arena_reset m a = Some m1"
    "blocks m1 = blocks m" "provider m1 = provider m"
    "provider_is_libc m1 = provider_is_libc m"
    "\<forall>p. arenas m1 p =
        (if p \<in> set ps then map_option (\<lambda>r. r\<lparr>arena_size := 0\<rparr>) (arenas m p)
         else arenas m p)" by blast
  have links: "\<forall>p. map_option arena_next (arenas m1 p) = map_option arena_next (arenas m p)"
    using m1(5) by (auto simp: option.map_comp comp_def)
  have ch1: "chain m1 a ps" using chain_same_links [OF links] assms(1) by simp
  from Arena_reset_chain [OF ch1] obtain m2 where m2: "Arena_reset m1 a = Some m2"
    "blocks m2 = blocks m1" "provider m2 = provider m1"
    "provider_is_libc m2 = provider_is_libc m1"
    "\<forall>p. arenas m2 p =
        (if p \<in> set ps then map_option (\<lambda>r. r\<lparr>arena_size := 0\<rparr>) (arenas m1 p)
         else arenas m1 p)" by blast
  have "arenas m2 = arenas m1"
  proof
    fix p show "arenas m2 p = arenas m1 p"
      using m2(5) m1(5) by (cases "arenas m p") auto
  qed
  with m2(2,3,4) have "m2 = m1" by simp
  with m2(1) have idem: "Arena_reset m1 a = Some m1" by simp
  from m1(1) assms(2) have ok1: "arena_ok m1" by (rule Arena_reset_ok)
  from chain_not_NULL [OF assms(1)] assms(4) have xn: "x \<noteq> NULL" by auto
  have qx: "qualifies m1 ?s x"
    using m1(5) assms(4,5,6) xn by (simp add: qualifies_def load_def)
  with assms(4) obtain xs t ys where sp: "ps = xs @ t # ys" "qualifies m1 ?s t"
    "\<forall>y\<in>set xs. \<not> qualifies m1 ?s y"
    using split_list_first_prop [of ps "qualifies m1 ?s"] by blast
  from sp(2) obtain r where r: "load m1 t = Some r" "?s \<le> arena_alloc_size r - arena_size r"
    by (auto simp: qualifies_def split: option.splits)
  from r(1) have ar: "arenas m1 t = Some r" by (auto simp: load_def split: if_splits)
  from sp(1) have tin: "t \<in> set ps" by simp
  with m1(5) ar have z: "arena_size r = 0" by (cases "arenas m t") auto
  from ch1 sp have fr: "find_region m1 a ?s = Some t" by (intro find_region_chain [of m1 a xs t ys]) auto
  have "0 < ?s" using size1_not_0 [of size0] by (simp add: word_gt_0)
  with r(2) z have "0 < arena_alloc_size r" by simp
  with ok1 ar have rn: "arena_region r \<noteq> NULL" by (auto simp: arena_ok_def region_ok_def)
  from Arena_alloc_fast_path [OF assms(3) fr r, of d] z
  have "Arena_alloc d m1 a size0 =
             Some (Inr (arena_region r), store m1 t (r\<lparr>arena_size := ?s\<rparr>))" by simp
  with m1(1) idem tin r(1) z rn show ?thesis by blast
qed

text \<open>
  The overflow exit of the doubling loop is never taken inside \<^verbatim>\<open>Arena_alloc\<close>: the
  converted request is at most \<open>2 ^ 62\<close> units.
\<close>

lemma Arena_alloc_never_overflows: "Arena_alloc d m a size0 \<noteq> Some (Inl Overflow, m')"
proof
  assume a: "Arena_alloc d m a size0 = Some (Inl Overflow, m')"
  then have l: "new_capacity_loop d (drop_bit 2 size0 + 1) = Some (Inl Overflow)"
    by (auto simp: Arena_alloc_def Let_def dest: new_capacity_loop_error
        split: option.splits sum.splits if_splits prod.splits)
  show False
  proof (cases "d = 0")
    case True
    with l new_capacity_loop_zero [OF size1_not_0, of size0] show False by simp
  next
    case False
    from new_capacity_in_alloc [OF False size1_bound, of size0] l show False by auto
  qed
qed

section \<open>Evaluation on concrete memories\<close>

lemmas eval_defs = returned_def struct_after_def fresh_memory_def Arena_alloc_def Arena_init_def
  load_def store_def COOL_ARENA_FUNC_ALLOC_def COOL_ARENA_FUNC_FREE_def free_def sizeof_Arena_def
  COOL_ARENA_DEF_SIZE_def qualifies_def one_region_def two_regions_def
  find_region.simps new_capacity_loop.simps Arena_reset.simps Arena_free.simps

lemma example_first_allocation:
  "Arena_alloc 16 (Arena_init (fresh_memory [4096, 8192, 12288]) 512) 512 14 =
     Some (Inr 4096, one_region)"
  by (simp add: eval_defs)

lemma example_second_allocation:
  "Arena_alloc 16 one_region 512 128 = Some (Inr 8192, two_regions)"
  by (simp add: eval_defs)

section \<open>Release\<close>

text \<open>
  C1. After \<^verbatim>\<open>Arena_free\<close> the head is not in the state \<^verbatim>\<open>Arena_init\<close> leaves it in.
  With the default region size: initialize, allocate 4 bytes, release. The head then has no
  buffer and no next region, but still the \<^verbatim>\<open>_size\<close> 2 and the \<^verbatim>\<open>_alloc_size\<close> 8192 it
  had before the release, where \<^verbatim>\<open>Arena_init\<close> leaves 0 and 0. (On every chain:
  \<open>Arena_free_chain\<close>.)
\<close>

theorem release_keeps_the_counters:
  "struct_after COOL_ARENA_DEF_SIZE 512 [Initialize] (fresh_memory [4096]) 512 =
     Some \<lparr>arena_region = NULL, arena_size = 0, arena_alloc_size = 0, arena_next = NULL\<rparr> \<and>
   struct_after COOL_ARENA_DEF_SIZE 512 [Initialize, Allocate 4] (fresh_memory [4096]) 512 =
     Some \<lparr>arena_region = 4096, arena_size = 2, arena_alloc_size = 8192, arena_next = NULL\<rparr> \<and>
   struct_after COOL_ARENA_DEF_SIZE 512 [Initialize, Allocate 4, Release] (fresh_memory [4096]) 512 =
     Some \<lparr>arena_region = NULL, arena_size = 2, arena_alloc_size = 8192, arena_next = NULL\<rparr>"
  by (simp add: eval_defs)

text \<open>
  C2. The run of \<^verbatim>\<open>examples/arena.c\<close> (region size 16; allocate 14 bytes, allocate 128
  bytes, release): after the release both structs, the head at 512 and the node at 12288,
  have no buffer and a capacity greater than zero (16 and 64). (Call sequences without a
  release keep the invariant: \<open>run_ok\<close>.)
\<close>

theorem release_leaves_capacity_without_buffer:
  "struct_after 16 512 [Initialize, Allocate 14, Allocate 128, Release]
       (fresh_memory [4096, 8192, 12288]) 512 =
     Some \<lparr>arena_region = NULL, arena_size = 4, arena_alloc_size = 16, arena_next = NULL\<rparr> \<and>
   struct_after 16 512 [Initialize, Allocate 14, Allocate 128, Release]
       (fresh_memory [4096, 8192, 12288]) 12288 =
     Some \<lparr>arena_region = NULL, arena_size = 33, arena_alloc_size = 64, arena_next = NULL\<rparr>"
  by (simp add: eval_defs)

section \<open>First fit\<close>

text \<open>
  C3, as amended. Let the chain from the head be \<open>ps\<close>, the request be non-zero and
  \<open>s\<close> its converted unit count. If \<open>t\<close> is the first struct of the chain, in chain
  order, whose free space \<^verbatim>\<open>_alloc_size - _size\<close> is at least \<open>s\<close>, the call returns the
  pointer \<^verbatim>\<open>_region + _size\<close> of \<open>t\<close> and advances the \<^verbatim>\<open>_size\<close> of \<open>t\<close> by \<open>s\<close>,
  nothing else. If no struct of the chain qualifies, the search ends at the tail; given
  a buffer \<open>b\<close> from the provider, a tail without a buffer receives \<open>b\<close> in place and the
  chain stays \<open>ps\<close>, and a tail with a buffer gets a new struct \<open>n\<close> (from the provider,
  an address that holds no struct yet) linked after it: the chain becomes \<open>ps @ [n]\<close> and
  \<open>n\<close> holds the buffer \<open>b\<close> with \<^verbatim>\<open>_size\<close> \<open>s\<close>.
\<close>

theorem first_fit_or_grow:
  assumes "chain m a ps" and "ps \<noteq> []" and "size0 \<noteq> 0" and "d \<noteq> 0"
    and "s = drop_bit 2 size0 + 1"
  shows
    "(\<forall>xs t ys r.
        ps = xs @ t # ys \<and> (\<forall>x\<in>set xs. \<not> qualifies m s x) \<and> qualifies m s t \<and>
        load m t = Some r \<longrightarrow>
        Arena_alloc d m a size0 =
          Some (Inr (arena_region r + 8 * arena_size r),
                store m t (r\<lparr>arena_size := arena_size r + s\<rparr>))) \<and>
     ((\<forall>x\<in>set ps. \<not> qualifies m s x) \<longrightarrow>
        find_region m a s = Some (last ps) \<and>
        (\<forall>r b rest.
           load m (last ps) = Some r \<and> provider m = b # rest \<and> b \<noteq> NULL \<longrightarrow>
           (arena_region r = NULL \<longrightarrow>
              (\<exists>m' c. new_capacity_loop d s = Some (Inr c) \<and>
                 Arena_alloc d m a size0 = Some (Inr b, m') \<and> chain m' a ps \<and>
                 load m' (last ps) =
                   Some (r\<lparr>arena_region := b, arena_alloc_size := c,
                           arena_size := arena_size r + s\<rparr>))) \<and>
           (arena_region r \<noteq> NULL \<longrightarrow>
              (\<forall>n rest'. rest = n # rest' \<and> n \<noteq> NULL \<and> arenas m n = None \<longrightarrow>
                 (\<exists>m' c. new_capacity_loop d s = Some (Inr c) \<and>
                    Arena_alloc d m a size0 = Some (Inr b, m') \<and>
                    chain m' a (ps @ [n]) \<and>
                    load m' n =
                      Some \<lparr>arena_region = b, arena_size = s, arena_alloc_size = c,
                            arena_next = NULL\<rparr>)))))"
proof (intro conjI allI impI)
  fix xs t ys r
  assume h: "ps = xs @ t # ys \<and> (\<forall>x\<in>set xs. \<not> qualifies m s x) \<and> qualifies m s t \<and>
        load m t = Some r"
  with assms(1) have "find_region m a s = Some t" by (intro find_region_chain [of m a xs t ys]) auto
  moreover from h have "s \<le> arena_alloc_size r - arena_size r" by (auto simp: qualifies_def)
  ultimately show "Arena_alloc d m a size0 =
          Some (Inr (arena_region r + 8 * arena_size r),
                store m t (r\<lparr>arena_size := arena_size r + s\<rparr>))"
    using h assms(3,5) Arena_alloc_fast_path [of size0 m a t r d] by simp
next
  assume none: "\<forall>x\<in>set ps. \<not> qualifies m s x"
  from assms(2) have ps: "ps = butlast ps @ [last ps]" by simp
  with assms(1) have ch: "chain m a (butlast ps @ last ps # [])" by simp
  from none have "\<forall>x\<in>set (butlast ps). \<not> qualifies m s x" by (auto dest: in_set_butlastD)
  with ch show fr: "find_region m a s = Some (last ps)" by (intro find_region_chain) auto
  from new_capacity_in_alloc [OF assms(4), of s] size1_bound [of size0] assms(5)
  obtain c where c: "new_capacity_loop d s = Some (Inr c)" by auto
  {
    fix r b rest
    assume h: "load m (last ps) = Some r \<and> provider m = b # rest \<and> b \<noteq> NULL"
    from none assms(2) h have nf: "\<not> s \<le> arena_alloc_size r - arena_size r"
      by (auto simp: qualifies_def dest!: bspec [of _ _ "last ps"])
    {
      assume rn: "arena_region r = NULL"
      let ?m' = "store (m\<lparr>blocks := (blocks m)(b \<mapsto> c), provider := rest\<rparr>) (last ps)
                   (r\<lparr>arena_region := b, arena_alloc_size := c,
                      arena_size := arena_size r + s\<rparr>)"
      have "Arena_alloc d m a size0 = Some (Inr b, ?m')"
        using assms(3,5) fr h nf c rn Arena_alloc_in_place [of size0 m a "last ps" r d c b rest]
        by simp
      moreover have "chain ?m' a ps"
      proof -
        have "chain ?m' a ps = chain (m\<lparr>blocks := (blocks m)(b \<mapsto> c), provider := rest\<rparr>) a ps"
          using h by (intro chain_store_same_next [of _ _ r]) (simp_all add: load_other_fields)
        also have "\<dots> = chain m a ps" by (intro chain_same_arenas) simp
        finally show ?thesis using assms(1) by simp
      qed
      moreover have "load ?m' (last ps) = Some (r\<lparr>arena_region := b, arena_alloc_size := c,
                           arena_size := arena_size r + s\<rparr>)"
        using h by (auto simp: load_store dest: load_Some_not_NULL)
      ultimately show "\<exists>m' c. new_capacity_loop d s = Some (Inr c) \<and>
                 Arena_alloc d m a size0 = Some (Inr b, m') \<and> chain m' a ps \<and>
                 load m' (last ps) =
                   Some (r\<lparr>arena_region := b, arena_alloc_size := c,
                           arena_size := arena_size r + s\<rparr>)" using c by blast
    }
    {
      fix n rest'
      assume rn: "arena_region r \<noteq> NULL"
        and n: "rest = n # rest' \<and> n \<noteq> NULL \<and> arenas m n = None"
      let ?M = "m\<lparr>blocks := (blocks m)(b \<mapsto> c, n \<mapsto> sizeof_Arena), provider := rest'\<rparr>"
      let ?rn = "\<lparr>arena_region = b, arena_size = s, arena_alloc_size = c, arena_next = NULL\<rparr>"
      let ?m' = "store (store ?M (last ps) (r\<lparr>arena_next := n\<rparr>)) n ?rn"
      from n have ln: "load m n = None" by (simp add: load_def)
      with h have nt: "n \<noteq> last ps" by auto
      from ln assms(1) have nin: "n \<notin> set ps" using chain_loadable [of m a ps n] by auto
      have "Arena_alloc d m a size0 = Some (Inr b, ?m')"
        using assms(3,5) fr h nf c rn n nt
          Arena_alloc_append [of size0 m a "last ps" r d c b n rest']
        by simp
      moreover have "chain ?m' a (ps @ [n])"
      proof -
        have "chain ?M a (butlast ps @ [last ps])"
          using assms(1) ps chain_same_arenas [of ?M m a ps] by simp
        moreover have "load ?M (last ps) = Some r" using h by (simp add: load_other_fields)
        moreover have "n \<notin> set (butlast ps @ [last ps])" using nin ps by simp
        ultimately have "chain ?m' a (butlast ps @ [last ps, n])"
          using n by (intro chain_append_node) auto
        moreover have "butlast ps @ [last ps, n] = ps @ [n]" using ps
          by (metis append.assoc append_Cons append_Nil)
        ultimately show ?thesis by simp
      qed
      moreover have "load ?m' n = Some ?rn" using n by (simp add: load_store)
      ultimately show "\<exists>m' c. new_capacity_loop d s = Some (Inr c) \<and>
                    Arena_alloc d m a size0 = Some (Inr b, m') \<and>
                    chain m' a (ps @ [n]) \<and>
                    load m' n =
                      Some \<lparr>arena_region = b, arena_size = s, arena_alloc_size = c,
                            arena_next = NULL\<rparr>" using c by blast
    }
  }
qed

text \<open>
  Witness for C3 on the memories of \<^verbatim>\<open>examples/arena.c\<close>: a request of 56 bytes on
  \<open>two_regions\<close> skips the head and is served by the second region; a request of 4 bytes
  on the freshly initialized arena populates the head in place; the request of 128 bytes
  on \<open>one_region\<close> finds no region and appends the struct at 12288.
\<close>

theorem first_fit_or_grow_witness:
  "chain one_region 512 [512] \<and> chain two_regions 512 [512, 12288] \<and>
   (16::uintptr_t) \<noteq> 0 \<and> (128::uintptr_t) \<noteq> 0 \<and> (56::uintptr_t) \<noteq> 0 \<and>
   \<not> qualifies two_regions (drop_bit 2 56 + 1) 512 \<and>
   qualifies two_regions (drop_bit 2 56 + 1) 12288 \<and>
   Arena_alloc 16 two_regions 512 56 =
     Some (Inr (8192 + 8 * 33),
           store two_regions 12288
             \<lparr>arena_region = 8192, arena_size = 33 + (drop_bit 2 56 + 1),
               arena_alloc_size = 64, arena_next = NULL\<rparr>) \<and>
   chain (Arena_init (fresh_memory [4096]) 512) 512 [512] \<and> (4::uintptr_t) \<noteq> 0 \<and>
   \<not> qualifies (Arena_init (fresh_memory [4096]) 512) (drop_bit 2 4 + 1) 512 \<and>
   (\<exists>m' c. new_capacity_loop 16 (drop_bit 2 4 + 1) = Some (Inr c) \<and>
      Arena_alloc 16 (Arena_init (fresh_memory [4096]) 512) 512 4 = Some (Inr 4096, m') \<and>
      chain m' 512 [512] \<and>
      load m' 512 =
        Some \<lparr>arena_region = 4096, arena_size = 0 + (drop_bit 2 4 + 1), arena_alloc_size = c,
              arena_next = NULL\<rparr>) \<and>
   \<not> qualifies one_region (drop_bit 2 128 + 1) 512 \<and>
   find_region one_region 512 (drop_bit 2 128 + 1) = Some 512 \<and>
   (\<exists>m' c. new_capacity_loop 16 (drop_bit 2 128 + 1) = Some (Inr c) \<and>
      Arena_alloc 16 one_region 512 128 = Some (Inr 8192, m') \<and>
      chain m' 512 [512, 12288] \<and>
      load m' 12288 =
        Some \<lparr>arena_region = 8192, arena_size = drop_bit 2 128 + 1, arena_alloc_size = c,
              arena_next = NULL\<rparr>)"
proof -
  have c1: "chain one_region 512 [512]" and c2: "chain two_regions 512 [512, 12288]"
    by (simp_all add: eval_defs)
  have nz: "(16::uintptr_t) \<noteq> 0" "(128::uintptr_t) \<noteq> 0" "(56::uintptr_t) \<noteq> 0" by simp_all
  have ne: "[512 :: ptr] \<noteq> []" "[512, 12288 :: ptr] \<noteq> []" by simp_all
  have q2: "\<not> qualifies two_regions (drop_bit 2 56 + 1) 512"
    "qualifies two_regions (drop_bit 2 56 + 1) 12288"
    by (simp_all add: eval_defs)
  have l2: "load two_regions 12288 =
       Some \<lparr>arena_region = 8192, arena_size = 33, arena_alloc_size = 64, arena_next = NULL\<rparr>"
    by (simp add: eval_defs)
  have q1: "\<not> qualifies one_region (drop_bit 2 128 + 1) 512"
    by (simp add: eval_defs)
  have l1: "load one_region (last [512]) =
       Some \<lparr>arena_region = 4096, arena_size = 4, arena_alloc_size = 16, arena_next = NULL\<rparr>"
    "provider one_region = 8192 # 12288 # []" "arenas one_region 12288 = None"
    by (simp_all add: eval_defs)
  have p2: "[512, 12288] = [512] @ [12288 :: ptr] \<and>
     (\<forall>x\<in>set [512]. \<not> qualifies two_regions (drop_bit 2 56 + 1) x) \<and>
     qualifies two_regions (drop_bit 2 56 + 1) 12288 \<and>
     load two_regions 12288 =
       Some \<lparr>arena_region = 8192, arena_size = 33, arena_alloc_size = 64, arena_next = NULL\<rparr>"
    using q2 l2 by simp
  have fit: "Arena_alloc 16 two_regions 512 56 =
     Some (Inr (8192 + 8 * 33),
           store two_regions 12288
             \<lparr>arena_region = 8192, arena_size = 33 + (drop_bit 2 56 + 1),
               arena_alloc_size = 64, arena_next = NULL\<rparr>)"
    using first_fit_or_grow [OF c2 ne(2) nz(3) nz(1) refl, THEN conjunct1, rule_format,
        where xs = "[512]" and t = 12288 and ys = "[]", OF p2]
    by simp
  have none: "\<forall>x\<in>set [512]. \<not> qualifies one_region (drop_bit 2 128 + 1) x"
    using q1 by simp
  note g = first_fit_or_grow [OF c1 ne(1) nz(2) nz(1) refl, THEN conjunct2, THEN mp, OF none]
  from g have fr: "find_region one_region 512 (drop_bit 2 128 + 1) = Some 512" by simp
  have p1: "load one_region (last [512]) =
       Some \<lparr>arena_region = 4096, arena_size = 4, arena_alloc_size = 16, arena_next = NULL\<rparr> \<and>
     provider one_region = 8192 # [12288] \<and> (8192 :: ptr) \<noteq> NULL"
    using l1 by simp
  have rn: "arena_region \<lparr>arena_region = 4096, arena_size = 4, arena_alloc_size = 16,
      arena_next = NULL\<rparr> \<noteq> NULL" by simp
  have p3: "[12288] = 12288 # [] \<and> (12288 :: ptr) \<noteq> NULL \<and> arenas one_region 12288 = None"
    using l1 by simp
  from g [THEN conjunct2, THEN spec, THEN spec, THEN spec, THEN mp, OF p1,
      THEN conjunct2, THEN mp, OF rn, THEN spec, THEN spec, THEN mp, OF p3]
  have "\<exists>m' c. new_capacity_loop 16 (drop_bit 2 128 + 1) = Some (Inr c) \<and>
      Arena_alloc 16 one_region 512 128 = Some (Inr 8192, m') \<and>
      chain m' 512 ([512] @ [12288]) \<and>
      load m' 12288 =
        Some \<lparr>arena_region = 8192, arena_size = drop_bit 2 128 + 1, arena_alloc_size = c,
              arena_next = NULL\<rparr>" .
  then have app: "\<exists>m' c. new_capacity_loop 16 (drop_bit 2 128 + 1) = Some (Inr c) \<and>
      Arena_alloc 16 one_region 512 128 = Some (Inr 8192, m') \<and>
      chain m' 512 [512, 12288] \<and>
      load m' 12288 =
        Some \<lparr>arena_region = 8192, arena_size = drop_bit 2 128 + 1, arena_alloc_size = c,
              arena_next = NULL\<rparr>" by (simp del: chain.simps)
  have c0: "chain (Arena_init (fresh_memory [4096]) 512) 512 [512]"
    and nz4: "(4::uintptr_t) \<noteq> 0"
    and q0: "\<not> qualifies (Arena_init (fresh_memory [4096]) 512) (drop_bit 2 4 + 1) 512"
    by (simp_all add: eval_defs)
  have none0: "\<forall>x\<in>set [512]. \<not> qualifies (Arena_init (fresh_memory [4096]) 512) (drop_bit 2 4 + 1) x"
    using q0 by simp
  have p0: "load (Arena_init (fresh_memory [4096]) 512) (last [512]) =
       Some \<lparr>arena_region = NULL, arena_size = 0, arena_alloc_size = 0, arena_next = NULL\<rparr> \<and>
     provider (Arena_init (fresh_memory [4096]) 512) = 4096 # [] \<and> (4096 :: ptr) \<noteq> NULL"
    by (simp add: eval_defs)
  have rn0: "arena_region \<lparr>arena_region = NULL, arena_size = 0, arena_alloc_size = 0,
      arena_next = NULL\<rparr> = NULL" by simp
  from first_fit_or_grow [OF c0 ne(1) nz4 nz(1) refl, THEN conjunct2, THEN mp, OF none0,
      THEN conjunct2, THEN spec, THEN spec, THEN spec, THEN mp, OF p0,
      THEN conjunct1, THEN mp, OF rn0]
  have "\<exists>m' c. new_capacity_loop 16 (drop_bit 2 4 + 1) = Some (Inr c) \<and>
      Arena_alloc 16 (Arena_init (fresh_memory [4096]) 512) 512 4 = Some (Inr 4096, m') \<and>
      chain m' 512 [512] \<and>
      load m' (last [512]) =
        Some (\<lparr>arena_region = NULL, arena_size = 0, arena_alloc_size = 0, arena_next = NULL\<rparr>
          \<lparr>arena_region := 4096, arena_alloc_size := c,
           arena_size := arena_size \<lparr>arena_region = NULL, arena_size = 0, arena_alloc_size = 0,
             arena_next = NULL\<rparr> + (drop_bit 2 4 + 1)\<rparr>)" .
  then have inpl: "\<exists>m' c. new_capacity_loop 16 (drop_bit 2 4 + 1) = Some (Inr c) \<and>
      Arena_alloc 16 (Arena_init (fresh_memory [4096]) 512) 512 4 = Some (Inr 4096, m') \<and>
      chain m' 512 [512] \<and>
      load m' 512 =
        Some \<lparr>arena_region = 4096, arena_size = 0 + (drop_bit 2 4 + 1), arena_alloc_size = c,
              arena_next = NULL\<rparr>" by (simp del: chain.simps)
  from c1 c2 nz q2 fit c0 nz4 q0 inpl q1 fr app show ?thesis by (intro conjI)
qed

text \<open>
  Counterexample to C3 as stated: on a freshly initialized arena no region qualifies for
  a request of 4 bytes, and the allocation succeeds without appending a region: the head
  itself receives the buffer, its \<^verbatim>\<open>_next\<close> stays \<^verbatim>\<open>NULL\<close>, and the provider's second
  address holds no struct.
\<close>

theorem first_allocation_appends_nothing:
  "chain (Arena_init (fresh_memory [4096, 8192]) 512) 512 [512] \<and>
   \<not> qualifies (Arena_init (fresh_memory [4096, 8192]) 512) (drop_bit 2 4 + 1) 512 \<and>
   returned COOL_ARENA_DEF_SIZE 512 [Initialize, Allocate 4] (fresh_memory [4096, 8192]) =
     Some [4096] \<and>
   struct_after COOL_ARENA_DEF_SIZE 512 [Initialize, Allocate 4] (fresh_memory [4096, 8192]) 512 =
     Some \<lparr>arena_region = 4096, arena_size = 2, arena_alloc_size = 8192, arena_next = NULL\<rparr> \<and>
   struct_after COOL_ARENA_DEF_SIZE 512 [Initialize, Allocate 4] (fresh_memory [4096, 8192]) 8192 =
     None"
  by (simp add: eval_defs)

section \<open>Growth\<close>

text \<open>
  C4. Let the default region size \<open>d\<close> be other than 0. For every unit count \<open>s'\<close> the
  doubling loop returns: with \<open>k\<close> the least exponent such that \<open>s' \<le> d * 2 ^ k\<close> as
  natural numbers, it yields \<open>d * 2 ^ k\<close> when that value fits in 64 bits and the overflow
  failure otherwise, never a wrapped value. When no struct of the chain qualifies for a
  non-zero request of \<open>s\<close> units, \<^verbatim>\<open>Arena_alloc\<close> stops its search at the tail and, given
  a buffer \<open>b\<close> from the provider (and, when the tail has a buffer, a fresh address \<open>n\<close>
  for the new struct), returns \<open>b\<close>; the region that then holds \<open>b\<close> (the tail itself, or
  the struct \<open>n\<close> linked after the tail) has as \<^verbatim>\<open>_alloc_size\<close> the least \<open>d * 2 ^ k\<close> that
  is at least \<open>s\<close>.
\<close>

theorem new_region_capacity:
  assumes "d \<noteq> 0" and "chain m a ps" and "ps \<noteq> []" and "size0 \<noteq> 0"
    and "s = drop_bit 2 size0 + 1" and "\<forall>x\<in>set ps. \<not> qualifies m s x"
  shows
    "(\<exists>k. unat s' \<le> unat d * 2 ^ k \<and> (\<forall>j<k. unat d * 2 ^ j < unat s') \<and>
        new_capacity_loop d s' =
          Some (if unat d * 2 ^ k < 2 ^ 64 then Inr (word_of_nat (unat d * 2 ^ k))
                else Inl Overflow)) \<and>
     (\<exists>k c. unat s \<le> unat d * 2 ^ k \<and> (\<forall>j<k. unat d * 2 ^ j < unat s) \<and>
        unat c = unat d * 2 ^ k \<and>
        find_region m a s = Some (last ps) \<and>
        (\<forall>r b rest.
           load m (last ps) = Some r \<and> provider m = b # rest \<and> b \<noteq> NULL \<longrightarrow>
           (arena_region r = NULL \<longrightarrow>
              (\<exists>m'. Arena_alloc d m a size0 = Some (Inr b, m') \<and>
                 load m' (last ps) =
                   Some (r\<lparr>arena_region := b, arena_alloc_size := c,
                           arena_size := arena_size r + s\<rparr>))) \<and>
           (arena_region r \<noteq> NULL \<longrightarrow>
              (\<forall>n rest'. rest = n # rest' \<and> n \<noteq> NULL \<and> arenas m n = None \<longrightarrow>
                 (\<exists>m' rt. Arena_alloc d m a size0 = Some (Inr b, m') \<and>
                    load m' (last ps) = Some rt \<and> arena_next rt = n \<and>
                    load m' n =
                      Some \<lparr>arena_region = b, arena_size = s, arena_alloc_size = c,
                            arena_next = NULL\<rparr>)))))"
proof (rule conjI)
  show "\<exists>k. unat s' \<le> unat d * 2 ^ k \<and> (\<forall>j<k. unat d * 2 ^ j < unat s') \<and>
        new_capacity_loop d s' =
          Some (if unat d * 2 ^ k < 2 ^ 64 then Inr (word_of_nat (unat d * 2 ^ k))
                else Inl Overflow)"
    using assms(1) by (rule new_capacity_loop_char)
next
  from new_capacity_in_alloc [OF assms(1), of s] size1_bound [of size0] assms(5) obtain k where
    k: "unat s \<le> unat d * 2 ^ k" "\<forall>j<k. unat d * 2 ^ j < unat s" "unat d * 2 ^ k < 2 ^ 64"
      "new_capacity_loop d s = Some (Inr (word_of_nat (unat d * 2 ^ k)))"
    by auto
  define c :: uintptr_t where "c = word_of_nat (unat d * 2 ^ k)"
  from k(3) have cap: "unat c = unat d * 2 ^ k"
    unfolding c_def by (intro of_nat_inverse [OF refl]) simp
  from k(4) have loop: "new_capacity_loop d (drop_bit 2 size0 + 1) = Some (Inr c)"
    by (simp add: c_def assms(5))
  from assms(3) have ps: "ps = butlast ps @ [last ps]" by simp
  with assms(2) have ch: "chain m a (butlast ps @ last ps # [])" by simp
  from assms(6) have "\<forall>x\<in>set (butlast ps). \<not> qualifies m s x" by (auto dest: in_set_butlastD)
  with ch have fr: "find_region m a s = Some (last ps)" by (intro find_region_chain) auto
  have grow: "(arena_region r = NULL \<longrightarrow>
              (\<exists>m'. Arena_alloc d m a size0 = Some (Inr b, m') \<and>
                 load m' (last ps) =
                   Some (r\<lparr>arena_region := b, arena_alloc_size := c,
                           arena_size := arena_size r + s\<rparr>))) \<and>
           (arena_region r \<noteq> NULL \<longrightarrow>
              (\<forall>n rest'. rest = n # rest' \<and> n \<noteq> NULL \<and> arenas m n = None \<longrightarrow>
                 (\<exists>m' rt. Arena_alloc d m a size0 = Some (Inr b, m') \<and>
                    load m' (last ps) = Some rt \<and> arena_next rt = n \<and>
                    load m' n =
                      Some \<lparr>arena_region = b, arena_size = s, arena_alloc_size = c,
                            arena_next = NULL\<rparr>)))"
    if h: "load m (last ps) = Some r \<and> provider m = b # rest \<and> b \<noteq> NULL" for r b rest
  proof (intro conjI impI allI)
    from h have tn: "last ps \<noteq> NULL" by (auto dest: load_Some_not_NULL)
    from assms(6) assms(3) h have nf: "\<not> drop_bit 2 size0 + 1 \<le> arena_alloc_size r - arena_size r"
      by (auto simp: qualifies_def assms(5) dest!: bspec [of _ _ "last ps"])
    {
      assume rn: "arena_region r = NULL"
      have "Arena_alloc d m a size0 =
           Some (Inr b,
                 store (m\<lparr>blocks := (blocks m)(b \<mapsto> c), provider := rest\<rparr>) (last ps)
                   (r\<lparr>arena_region := b, arena_alloc_size := c,
                      arena_size := arena_size r + (drop_bit 2 size0 + 1)\<rparr>))"
        using assms(4) fr h nf loop rn
        by (intro Arena_alloc_in_place) (simp_all add: assms(5))
      then show "\<exists>m'. Arena_alloc d m a size0 = Some (Inr b, m') \<and>
                 load m' (last ps) =
                   Some (r\<lparr>arena_region := b, arena_alloc_size := c,
                           arena_size := arena_size r + s\<rparr>)"
        using tn by (simp add: load_store assms(5))
    }
    {
      fix n rest'
      assume rn: "arena_region r \<noteq> NULL"
        and n: "rest = n # rest' \<and> n \<noteq> NULL \<and> arenas m n = None"
      from n have "load m n = None" by (simp add: load_def)
      with h have nt: "n \<noteq> last ps" by auto
      have "Arena_alloc d m a size0 =
           Some (Inr b,
                 store
                   (store (m\<lparr>blocks := (blocks m)(b \<mapsto> c, n \<mapsto> sizeof_Arena), provider := rest'\<rparr>)
                      (last ps) (r\<lparr>arena_next := n\<rparr>))
                   n \<lparr>arena_region = b, arena_size = drop_bit 2 size0 + 1,
                      arena_alloc_size = c, arena_next = NULL\<rparr>)"
        using assms(4) fr h nf loop rn n nt
        by (intro Arena_alloc_append) (simp_all add: assms(5))
      then show "\<exists>m' rt. Arena_alloc d m a size0 = Some (Inr b, m') \<and>
                    load m' (last ps) = Some rt \<and> arena_next rt = n \<and>
                    load m' n =
                      Some \<lparr>arena_region = b, arena_size = s, arena_alloc_size = c,
                            arena_next = NULL\<rparr>"
        using tn nt n by (simp add: load_store assms(5))
    }
  qed
  with k(1,2) cap fr
  show "\<exists>k c. unat s \<le> unat d * 2 ^ k \<and> (\<forall>j<k. unat d * 2 ^ j < unat s) \<and>
        unat c = unat d * 2 ^ k \<and>
        find_region m a s = Some (last ps) \<and>
        (\<forall>r b rest.
           load m (last ps) = Some r \<and> provider m = b # rest \<and> b \<noteq> NULL \<longrightarrow>
           (arena_region r = NULL \<longrightarrow>
              (\<exists>m'. Arena_alloc d m a size0 = Some (Inr b, m') \<and>
                 load m' (last ps) =
                   Some (r\<lparr>arena_region := b, arena_alloc_size := c,
                           arena_size := arena_size r + s\<rparr>))) \<and>
           (arena_region r \<noteq> NULL \<longrightarrow>
              (\<forall>n rest'. rest = n # rest' \<and> n \<noteq> NULL \<and> arenas m n = None \<longrightarrow>
                 (\<exists>m' rt. Arena_alloc d m a size0 = Some (Inr b, m') \<and>
                    load m' (last ps) = Some rt \<and> arena_next rt = n \<and>
                    load m' n =
                      Some \<lparr>arena_region = b, arena_size = s, arena_alloc_size = c,
                            arena_next = NULL\<rparr>))))"
    by (intro exI [of _ k] exI [of _ c]) blast
qed

text \<open>
  Witness for C4: region size 16. The loop on \<open>2 ^ 63 + 1\<close> units, and the request of 128
  bytes (33 units) on \<open>one_region\<close>, whose new region at 12288 has capacity 64.
\<close>

theorem new_region_capacity_witness:
  "(16::uintptr_t) \<noteq> 0 \<and> chain one_region 512 [512] \<and> (128::uintptr_t) \<noteq> 0 \<and>
   \<not> qualifies one_region (drop_bit 2 128 + 1) 512 \<and>
   load one_region 512 =
     Some \<lparr>arena_region = 4096, arena_size = 4, arena_alloc_size = 16, arena_next = NULL\<rparr> \<and>
   provider one_region = [8192, 12288] \<and> arenas one_region 12288 = None \<and>
   new_capacity_loop 16 (drop_bit 2 128 + 1) = Some (Inr 64) \<and>
   (\<exists>k. unat (2 ^ 63 + 1 :: uintptr_t) \<le> unat (16::uintptr_t) * 2 ^ k \<and>
      (\<forall>j<k. unat (16::uintptr_t) * 2 ^ j < unat (2 ^ 63 + 1 :: uintptr_t)) \<and>
      new_capacity_loop 16 (2 ^ 63 + 1) =
        Some (if unat (16::uintptr_t) * 2 ^ k < 2 ^ 64
              then Inr (word_of_nat (unat (16::uintptr_t) * 2 ^ k)) else Inl Overflow)) \<and>
   (\<exists>k c. unat (drop_bit 2 (128::uintptr_t) + 1) \<le> unat (16::uintptr_t) * 2 ^ k \<and>
      (\<forall>j<k. unat (16::uintptr_t) * 2 ^ j < unat (drop_bit 2 (128::uintptr_t) + 1)) \<and>
      unat c = unat (16::uintptr_t) * 2 ^ k \<and>
      find_region one_region 512 (drop_bit 2 128 + 1) = Some 512 \<and>
      (\<exists>m' rt. Arena_alloc 16 one_region 512 128 = Some (Inr 8192, m') \<and>
         load m' 512 = Some rt \<and> arena_next rt = 12288 \<and>
         load m' 12288 =
           Some \<lparr>arena_region = 8192, arena_size = drop_bit 2 128 + 1, arena_alloc_size = c,
                 arena_next = NULL\<rparr>))"
proof -
  have d: "(16::uintptr_t) \<noteq> 0" and nz: "(128::uintptr_t) \<noteq> 0" by simp_all
  have c1: "chain one_region 512 [512]" and ne: "[512 :: ptr] \<noteq> []"
    and q1: "\<not> qualifies one_region (drop_bit 2 128 + 1) 512"
    and l1: "load one_region 512 =
       Some \<lparr>arena_region = 4096, arena_size = 4, arena_alloc_size = 16, arena_next = NULL\<rparr>"
    and pv: "provider one_region = [8192, 12288]" and fresh: "arenas one_region 12288 = None"
    and lp: "new_capacity_loop 16 (drop_bit 2 128 + 1) = Some (Inr 64)"
    by (simp_all add: eval_defs)
  have none: "\<forall>x\<in>set [512]. \<not> qualifies one_region (drop_bit 2 128 + 1) x"
    using q1 by simp
  note T = new_region_capacity [OF d c1 ne nz refl none, where s' = "2 ^ 63 + 1"]
  from T [THEN conjunct2] obtain k c where
    k: "unat (drop_bit 2 (128::uintptr_t) + 1) \<le> unat (16::uintptr_t) * 2 ^ k"
      "\<forall>j<k. unat (16::uintptr_t) * 2 ^ j < unat (drop_bit 2 (128::uintptr_t) + 1)"
      "unat c = unat (16::uintptr_t) * 2 ^ k"
      "find_region one_region 512 (drop_bit 2 128 + 1) = Some (last [512])"
    and g: "\<forall>r b rest.
           load one_region (last [512]) = Some r \<and> provider one_region = b # rest \<and> b \<noteq> NULL \<longrightarrow>
           (arena_region r = NULL \<longrightarrow>
              (\<exists>m'. Arena_alloc 16 one_region 512 128 = Some (Inr b, m') \<and>
                 load m' (last [512]) =
                   Some (r\<lparr>arena_region := b, arena_alloc_size := c,
                           arena_size := arena_size r + (drop_bit 2 128 + 1)\<rparr>))) \<and>
           (arena_region r \<noteq> NULL \<longrightarrow>
              (\<forall>n rest'. rest = n # rest' \<and> n \<noteq> NULL \<and> arenas one_region n = None \<longrightarrow>
                 (\<exists>m' rt. Arena_alloc 16 one_region 512 128 = Some (Inr b, m') \<and>
                    load m' (last [512]) = Some rt \<and> arena_next rt = n \<and>
                    load m' n =
                      Some \<lparr>arena_region = b, arena_size = drop_bit 2 128 + 1,
                            arena_alloc_size = c, arena_next = NULL\<rparr>)))"
    by blast
  have p1: "load one_region (last [512]) =
       Some \<lparr>arena_region = 4096, arena_size = 4, arena_alloc_size = 16, arena_next = NULL\<rparr> \<and>
     provider one_region = 8192 # [12288] \<and> (8192 :: ptr) \<noteq> NULL"
    using l1 pv by simp
  have rn: "arena_region \<lparr>arena_region = 4096, arena_size = 4, arena_alloc_size = 16,
      arena_next = NULL\<rparr> \<noteq> NULL" by simp
  have p3: "[12288] = 12288 # [] \<and> (12288 :: ptr) \<noteq> NULL \<and> arenas one_region 12288 = None"
    using fresh by simp
  from g [THEN spec, THEN spec, THEN spec, THEN mp, OF p1,
      THEN conjunct2, THEN mp, OF rn, THEN spec, THEN spec, THEN mp, OF p3]
  have "\<exists>m' rt. Arena_alloc 16 one_region 512 128 = Some (Inr 8192, m') \<and>
         load m' (last [512]) = Some rt \<and> arena_next rt = 12288 \<and>
         load m' 12288 =
           Some \<lparr>arena_region = 8192, arena_size = drop_bit 2 128 + 1, arena_alloc_size = c,
                 arena_next = NULL\<rparr>" .
  then have app: "\<exists>m' rt. Arena_alloc 16 one_region 512 128 = Some (Inr 8192, m') \<and>
         load m' 512 = Some rt \<and> arena_next rt = 12288 \<and>
         load m' 12288 =
           Some \<lparr>arena_region = 8192, arena_size = drop_bit 2 128 + 1, arena_alloc_size = c,
                 arena_next = NULL\<rparr>" by simp
  from k(4) have fr: "find_region one_region 512 (drop_bit 2 128 + 1) = Some 512" by simp
  from k(1,2,3) fr app
  have second: "\<exists>k c. unat (drop_bit 2 (128::uintptr_t) + 1) \<le> unat (16::uintptr_t) * 2 ^ k \<and>
      (\<forall>j<k. unat (16::uintptr_t) * 2 ^ j < unat (drop_bit 2 (128::uintptr_t) + 1)) \<and>
      unat c = unat (16::uintptr_t) * 2 ^ k \<and>
      find_region one_region 512 (drop_bit 2 128 + 1) = Some 512 \<and>
      (\<exists>m' rt. Arena_alloc 16 one_region 512 128 = Some (Inr 8192, m') \<and>
         load m' 512 = Some rt \<and> arena_next rt = 12288 \<and>
         load m' 12288 =
           Some \<lparr>arena_region = 8192, arena_size = drop_bit 2 128 + 1, arena_alloc_size = c,
                 arena_next = NULL\<rparr>)"
    by (intro exI [of _ k] exI [of _ c] conjI)
  from d c1 nz q1 l1 pv fresh lp T [THEN conjunct1] second show ?thesis by (intro conjI)
qed

section \<open>Failure\<close>

text \<open>
  Whenever \<^verbatim>\<open>Arena_alloc\<close> returns a failure, the caller receives \<^verbatim>\<open>NULL\<close> and every \<^verbatim>\<open>Arena\<close>
  struct in memory is as before the call; the failure is the overflow of the doubling
  loop, or the provider answering \<^verbatim>\<open>NULL\<close> to the request for the buffer or to the request
  for the new struct. With libc as the provider a refused request does make the call
  return that failure.
\<close>

lemma Arena_alloc_failure_leaves_arena:
  assumes "Arena_alloc d m a size0 = Some (Inl e, m')"
  shows "C_return (Inl e) = NULL \<and> arenas m' = arenas m \<and>
         (e = Overflow \<longrightarrow> new_capacity_loop d (drop_bit 2 size0 + 1) = Some (Inl Overflow)) \<and>
         (e = NoMemory \<longrightarrow>
            (\<exists>c. new_capacity_loop d (drop_bit 2 size0 + 1) = Some (Inr c) \<and>
                 (fst (COOL_ARENA_FUNC_ALLOC m c) = NULL \<or>
                  fst (COOL_ARENA_FUNC_ALLOC (snd (COOL_ARENA_FUNC_ALLOC m c)) sizeof_Arena) = NULL)))"
proof -
  have "arenas m' = arenas m" using assms by (rule Arena_alloc_Inl_cases)
  moreover have "e = Overflow \<longrightarrow> new_capacity_loop d (drop_bit 2 size0 + 1) = Some (Inl Overflow)"
    using assms
    by (auto simp: Arena_alloc_def Let_def split: option.splits sum.splits if_splits prod.splits)
  moreover have "e = NoMemory \<longrightarrow>
            (\<exists>c. new_capacity_loop d (drop_bit 2 size0 + 1) = Some (Inr c) \<and>
                 (fst (COOL_ARENA_FUNC_ALLOC m c) = NULL \<or>
                  fst (COOL_ARENA_FUNC_ALLOC (snd (COOL_ARENA_FUNC_ALLOC m c)) sizeof_Arena) = NULL))"
    using assms
    by (auto simp: Arena_alloc_def Let_def dest: new_capacity_loop_error
        split: option.splits sum.splits if_splits prod.splits)
  ultimately show ?thesis by simp
qed

lemma Arena_alloc_refused_libc:
  assumes "provider_is_libc m" and "size0 \<noteq> 0"
    and "find_region m a (drop_bit 2 size0 + 1) = Some t" and "load m t = Some r"
    and "\<not> drop_bit 2 size0 + 1 \<le> arena_alloc_size r - arena_size r"
    and "new_capacity_loop d (drop_bit 2 size0 + 1) = Some (Inr c)"
    and "fst (COOL_ARENA_FUNC_ALLOC m c) = NULL \<or>
         arena_region r \<noteq> NULL \<and>
         fst (COOL_ARENA_FUNC_ALLOC (snd (COOL_ARENA_FUNC_ALLOC m c)) sizeof_Arena) = NULL"
  shows "\<exists>m'. Arena_alloc d m a size0 = Some (Inl NoMemory, m') \<and> arenas m' = arenas m"
  using assms
  by (auto simp: Arena_alloc_def COOL_ARENA_FUNC_ALLOC_def COOL_ARENA_FUNC_FREE_def free_def
      split: list.splits if_splits)

text \<open>
  C5. With a replaced provider the refusal of the new struct does not make \<^verbatim>\<open>Arena_alloc\<close>
  return a failure. On \<open>one_region\<close> with region size 16, a provider that is not libc and
  has one answer left, the request of 128 bytes finds no region, obtains the buffer 8192
  from the provider and is refused the struct; the code then hands the buffer to libc's
  \<^verbatim>\<open>free\<close>, not to \<^verbatim>\<open>COOL_ARENA_FUNC_FREE\<close>, which is undefined on a block libc did not
  allocate: the call gives no result. With libc as the provider the same call returns the
  failure and leaves the structs as they were.
\<close>

theorem struct_refusal_calls_libc_free:
  "Arena_alloc 16 (one_region\<lparr>provider := [8192], provider_is_libc := False\<rparr>) 512 128 = None \<and>
   find_region (one_region\<lparr>provider := [8192], provider_is_libc := False\<rparr>) 512
     (drop_bit 2 128 + 1) = Some 512 \<and>
   new_capacity_loop 16 (drop_bit 2 128 + 1) = Some (Inr 64) \<and>
   fst (COOL_ARENA_FUNC_ALLOC (one_region\<lparr>provider := [8192], provider_is_libc := False\<rparr>) 64) =
     8192 \<and>
   fst (COOL_ARENA_FUNC_ALLOC
          (snd (COOL_ARENA_FUNC_ALLOC
                  (one_region\<lparr>provider := [8192], provider_is_libc := False\<rparr>) 64))
          sizeof_Arena) = NULL \<and>
   free (snd (COOL_ARENA_FUNC_ALLOC
                (snd (COOL_ARENA_FUNC_ALLOC
                        (one_region\<lparr>provider := [8192], provider_is_libc := False\<rparr>) 64))
                sizeof_Arena)) 8192 = None \<and>
   Arena_alloc 16 (one_region\<lparr>provider := [8192]\<rparr>) 512 128 =
     Some (Inl NoMemory, one_region\<lparr>provider := []\<rparr>)"
  by (simp add: eval_defs)

section \<open>Zero-size requests\<close>

text \<open>
  C6. For every arena state, \<^verbatim>\<open>Arena_alloc\<close> with a size of zero bytes returns \<^verbatim>\<open>NULL\<close>,
  not tagged as an error, and the memory (every struct, every block, the provider) is
  the one before the call.
\<close>

theorem Arena_alloc_zero_size:
  "Arena_alloc def_size m arena 0 = Some (Inr NULL, m) \<and> C_return (Inr NULL) = NULL"
  by (simp add: Arena_alloc_def)

section \<open>Frame\<close>

text \<open>
  C7, as amended. On every successful non-zero allocation, with a provider whose
  addresses hold no struct yet, there is one struct \<open>q\<close> whose \<^verbatim>\<open>_size\<close> advances by the
  (non-zero) unit count; every other struct keeps its \<^verbatim>\<open>_size\<close>, \<^verbatim>\<open>_alloc_size\<close> and
  \<^verbatim>\<open>_region\<close>; and the only \<^verbatim>\<open>_next\<close> link that can change is that of the struct the search
  stopped at, from \<^verbatim>\<open>NULL\<close> to \<open>q\<close>, when \<open>q\<close> is a new struct.
\<close>

theorem Arena_alloc_frame:
  assumes "Arena_alloc d m a size0 = Some (Inr p, m')" and "size0 \<noteq> 0"
    and "\<forall>n\<in>set (provider m). n \<noteq> NULL \<longrightarrow> arenas m n = None"
  shows "drop_bit 2 size0 + 1 \<noteq> 0 \<and>
    (\<exists>t q. find_region m a (drop_bit 2 size0 + 1) = Some t \<and>
       alloc_frame m m' t (drop_bit 2 size0 + 1) q)"
proof -
  let ?s = "drop_bit 2 size0 + 1"
  from assms(1,2) have "\<exists>t q. find_region m a ?s = Some t \<and> alloc_frame m m' t ?s q"
  proof (cases rule: Arena_alloc_Inr_cases)
    case (fast t r)
    from fast(2) have "arenas m t = Some r" by (auto simp: load_def split: if_splits)
    moreover have "arenas m' = (arenas m)(t \<mapsto> r\<lparr>arena_size := arena_size r + ?s\<rparr>)"
      by (simp add: fast(5) arenas_store)
    ultimately have "alloc_frame m m' t ?s t"
      by (rule alloc_frame_one_write) simp_all
    with fast(1) show ?thesis by blast
  next
    case (in_place t r c rest)
    from in_place(2) have "arenas m t = Some r" by (auto simp: load_def split: if_splits)
    moreover have "arenas m' = (arenas m)(t \<mapsto> r\<lparr>arena_region := p, arena_alloc_size := c,
                      arena_size := arena_size r + ?s\<rparr>)"
      by (simp add: in_place(8) arenas_store)
    ultimately have "alloc_frame m m' t ?s t"
      by (rule alloc_frame_one_write) simp_all
    with in_place(1) show ?thesis by blast
  next
    case (appended t r c n rest)
    from appended(2) have tr: "arenas m t = Some r" by (auto simp: load_def split: if_splits)
    from appended(5,8) assms(3) have nn: "arenas m n = None" by simp
    have next0: "arena_next r = NULL"
      using find_region_stops [OF appended(1)] appended(2,3) by auto
    have "arenas m' = (arenas m)(t \<mapsto> r\<lparr>arena_next := n\<rparr>,
        n \<mapsto> \<lparr>arena_region = p, arena_size = ?s, arena_alloc_size = c, arena_next = NULL\<rparr>)"
      by (simp add: appended(10) arenas_store)
    with tr nn have "alloc_frame m m' t ?s n"
      by (rule alloc_frame_appended) (simp_all add: next0)
    with appended(1) show ?thesis by blast
  next
    case (aliased t r c rest)
    from aliased(2) have "arenas m t = Some r" "t \<noteq> NULL" by (auto simp: load_def split: if_splits)
    with aliased(5) assms(3) have False by simp
    then show ?thesis ..
  qed
  with size1_not_0 [of size0] show ?thesis by blast
qed

text \<open>
  Witness for C7: the second allocation of \<^verbatim>\<open>examples/arena.c\<close>.
\<close>

theorem Arena_alloc_frame_witness:
  "Arena_alloc 16 one_region 512 128 = Some (Inr 8192, two_regions) \<and>
   (128::uintptr_t) \<noteq> 0 \<and>
   provider one_region = [8192, 12288] \<and>
   arenas one_region 8192 = None \<and> arenas one_region 12288 = None \<and>
   drop_bit 2 (128::uintptr_t) + 1 \<noteq> 0 \<and>
   (\<exists>t q. find_region one_region 512 (drop_bit 2 128 + 1) = Some t \<and>
      alloc_frame one_region two_regions t (drop_bit 2 128 + 1) q)"
proof -
  note e = example_second_allocation
  have nz: "(128::uintptr_t) \<noteq> 0" by simp
  have p: "provider one_region = [8192, 12288]"
    "arenas one_region 8192 = None" "arenas one_region 12288 = None"
    by (simp_all add: eval_defs)
  then have fresh: "\<forall>n\<in>set (provider one_region). n \<noteq> NULL \<longrightarrow> arenas one_region n = None"
    by simp
  from Arena_alloc_frame [OF e nz fresh] e nz p show ?thesis by blast
qed

text \<open>
  Counterexample to C7 as stated, on the run of \<^verbatim>\<open>examples/arena.c\<close>: the allocation of
  128 bytes advances \<^verbatim>\<open>_size\<close> in the new struct at 12288, and the \<^verbatim>\<open>_next\<close> link of another
  region, the head, changes from \<^verbatim>\<open>NULL\<close> to 12288.
\<close>

theorem growth_links_the_tail:
  "struct_after 16 512 [Initialize, Allocate 14] (fresh_memory [4096, 8192, 12288]) 512 =
     Some \<lparr>arena_region = 4096, arena_size = 4, arena_alloc_size = 16, arena_next = NULL\<rparr> \<and>
   returned 16 512 [Initialize, Allocate 14, Allocate 128] (fresh_memory [4096, 8192, 12288]) =
     Some [4096, 8192] \<and>
   struct_after 16 512 [Initialize, Allocate 14, Allocate 128]
       (fresh_memory [4096, 8192, 12288]) 512 =
     Some \<lparr>arena_region = 4096, arena_size = 4, arena_alloc_size = 16, arena_next = 12288\<rparr> \<and>
   struct_after 16 512 [Initialize, Allocate 14, Allocate 128]
       (fresh_memory [4096, 8192, 12288]) 12288 =
     Some \<lparr>arena_region = 8192, arena_size = 33, arena_alloc_size = 64, arena_next = NULL\<rparr>"
  by (simp add: eval_defs)

section \<open>Reset\<close>

text \<open>
  C8. With the default region size: initialize, allocate 4 bytes, release, reset. The
  head then has \<^verbatim>\<open>_size\<close> 0 and \<^verbatim>\<open>_alloc_size\<close> 8192, so a request of 4 bytes (2 units)
  fits its capacity; the allocation reuses the head (its \<^verbatim>\<open>_size\<close> becomes 2) and
  returns \<^verbatim>\<open>NULL\<close>, the failure value, because the head has no buffer. (Where the
  invariants hold: \<open>reset_then_allocate\<close>.)
\<close>

theorem reset_after_release_allocates_null:
  "struct_after COOL_ARENA_DEF_SIZE 512 [Initialize, Allocate 4, Release, Reset]
       (fresh_memory [4096, 8192]) 512 =
     Some \<lparr>arena_region = NULL, arena_size = 0, arena_alloc_size = 8192, arena_next = NULL\<rparr> \<and>
   returned COOL_ARENA_DEF_SIZE 512 [Initialize, Allocate 4, Release, Reset, Allocate 4]
       (fresh_memory [4096, 8192]) =
     Some [4096, NULL] \<and>
   struct_after COOL_ARENA_DEF_SIZE 512 [Initialize, Allocate 4, Release, Reset, Allocate 4]
       (fresh_memory [4096, 8192]) 512 =
     Some \<lparr>arena_region = NULL, arena_size = 2, arena_alloc_size = 8192, arena_next = NULL\<rparr>"
  by (simp add: eval_defs)

section \<open>Monotonic usage\<close>

text \<open>
  C9. With the default region size: initialize, allocate 32764 bytes (8192 units, the
  whole region), release, allocate 4 bytes. The last allocation succeeds and is served by
  the head, whose \<^verbatim>\<open>_size\<close> is then 8194 with an \<^verbatim>\<open>_alloc_size\<close> of 8192. (Where the
  invariants hold: \<open>allocation_within_capacity\<close>.)
\<close>

theorem used_exceeds_capacity_after_release:
  "struct_after COOL_ARENA_DEF_SIZE 512 [Initialize, Allocate 32764, Release]
       (fresh_memory [4096, 8192]) 512 =
     Some \<lparr>arena_region = NULL, arena_size = 8192, arena_alloc_size = 8192, arena_next = NULL\<rparr> \<and>
   returned COOL_ARENA_DEF_SIZE 512 [Initialize, Allocate 32764, Release, Allocate 4]
       (fresh_memory [4096, 8192]) =
     Some [4096, 8192] \<and>
   struct_after COOL_ARENA_DEF_SIZE 512 [Initialize, Allocate 32764, Release, Allocate 4]
       (fresh_memory [4096, 8192]) 512 =
     Some \<lparr>arena_region = 8192, arena_size = 8194, arena_alloc_size = 8192, arena_next = NULL\<rparr> \<and>
   \<not> (8194::uintptr_t) \<le> 8192"
  by (simp add: eval_defs)

section \<open>Allocation after release\<close>

text \<open>
  C10. There is a call sequence initialize; allocate (4 bytes, successful); release;
  allocate (4 bytes) in which the release leaves the head without a buffer but with its
  \<^verbatim>\<open>_size\<close> 2 and \<^verbatim>\<open>_alloc_size\<close> 8192, the free-space test passes on that struct, and the
  second allocation takes the fast path: it returns the non-null pointer \<^verbatim>\<open>NULL + 2\<close>
  (address 16), advances \<^verbatim>\<open>_size\<close> to 4, asks the provider for nothing and leaves the
  head without a buffer.
\<close>

theorem allocate_after_release_uses_absent_buffer:
  "\<exists>m1 m2 m3 r.
     Arena_alloc COOL_ARENA_DEF_SIZE (Arena_init (fresh_memory [4096, 8192]) 512) 512 4 =
       Some (Inr 4096, m1) \<and>
     load m1 512 =
       Some \<lparr>arena_region = 4096, arena_size = 2, arena_alloc_size = 8192, arena_next = NULL\<rparr> \<and>
     Arena_free m1 512 = Some m2 \<and>
     load m2 512 = Some r \<and>
     r = \<lparr>arena_region = NULL, arena_size = 2, arena_alloc_size = 8192, arena_next = NULL\<rparr> \<and>
     qualifies m2 (drop_bit 2 4 + 1) 512 \<and>
     Arena_alloc COOL_ARENA_DEF_SIZE m2 512 4 =
       Some (Inr (arena_region r + 8 * arena_size r), m3) \<and>
     arena_region r + 8 * arena_size r = 16 \<and>
     C_return (Inr (arena_region r + 8 * arena_size r)) \<noteq> NULL \<and>
     provider m3 = provider m2 \<and> blocks m3 = blocks m2 \<and>
     load m3 512 =
       Some \<lparr>arena_region = NULL, arena_size = 4, arena_alloc_size = 8192, arena_next = NULL\<rparr>"
  by (simp add: eval_defs)

end
